theory Spec2Isabelle
  imports Complex_Main "HOL-Library.Word" "HOL-Library.List_Lexorder" "HOL-Library.Char_ord"
begin

section \<open>Machine numbers\<close>

text \<open>
  The C++ type \<open>long\<close> is a 64-bit two's complement integer; comparisons read it signed.
\<close>

type_synonym long = "64 word"

text \<open>
  A \<open>double\<close> is a finite value, one of the two infinities, or not-a-number. Finite values
  are kept exact (rounding and the sign of zero are not modelled); the special values follow
  the IEEE 754 rules, which is what the guards around zero sequence counts in
  \<open>ActionNode::updateSequenceCount\<close> are about.
\<close>

datatype double = Finite real | PosInf | NegInf | NaN

fun dneg :: "double \<Rightarrow> double" where
  "dneg (Finite a) = Finite (- a)"
| "dneg PosInf = NegInf"
| "dneg NegInf = PosInf"
| "dneg NaN = NaN"

fun dadd :: "double \<Rightarrow> double \<Rightarrow> double" where
  "dadd (Finite a) (Finite b) = Finite (a + b)"
| "dadd NaN _ = NaN"
| "dadd _ NaN = NaN"
| "dadd PosInf NegInf = NaN"
| "dadd NegInf PosInf = NaN"
| "dadd PosInf _ = PosInf"
| "dadd NegInf _ = NegInf"
| "dadd (Finite a) b = b"

definition dsub :: "double \<Rightarrow> double \<Rightarrow> double" where
  "dsub a b = dadd a (dneg b)"

definition signed_inf :: "bool \<Rightarrow> double" where
  "signed_inf positive = (if positive then PosInf else NegInf)"

fun dmul :: "double \<Rightarrow> double \<Rightarrow> double" where
  "dmul (Finite a) (Finite b) = Finite (a * b)"
| "dmul NaN _ = NaN"
| "dmul _ NaN = NaN"
| "dmul (Finite a) PosInf = (if a = 0 then NaN else signed_inf (0 < a))"
| "dmul (Finite a) NegInf = (if a = 0 then NaN else signed_inf (a < 0))"
| "dmul PosInf (Finite b) = (if b = 0 then NaN else signed_inf (0 < b))"
| "dmul NegInf (Finite b) = (if b = 0 then NaN else signed_inf (b < 0))"
| "dmul PosInf PosInf = PosInf"
| "dmul NegInf NegInf = PosInf"
| "dmul PosInf NegInf = NegInf"
| "dmul NegInf PosInf = NegInf"

fun ddiv :: "double \<Rightarrow> double \<Rightarrow> double" where
  "ddiv (Finite a) (Finite b) =
     (if b = 0 then (if a = 0 then NaN else signed_inf (0 < a)) else Finite (a / b))"
| "ddiv NaN _ = NaN"
| "ddiv _ NaN = NaN"
| "ddiv (Finite a) _ = Finite 0"
| "ddiv PosInf (Finite b) = signed_inf (0 \<le> b)"
| "ddiv NegInf (Finite b) = signed_inf (b < 0)"
| "ddiv _ _ = NaN"

text \<open>Comparisons: every comparison with NaN is false, except \<open>!=\<close>.\<close>

fun dless :: "double \<Rightarrow> double \<Rightarrow> bool" where
  "dless (Finite a) (Finite b) = (a < b)"
| "dless NaN _ = False"
| "dless _ NaN = False"
| "dless NegInf b = (b \<noteq> NegInf)"
| "dless a PosInf = (a \<noteq> PosInf)"
| "dless _ _ = False"

definition deq :: "double \<Rightarrow> double \<Rightarrow> bool" where
  "deq a b = (a \<noteq> NaN \<and> a = b)"

text \<open>The implicit conversion of a \<open>long\<close> operand in a \<open>double\<close> expression.\<close>

definition of_long :: "long \<Rightarrow> double" where
  "of_long n = Finite (real_of_int (sint n))"

section \<open>Errors\<close>

text \<open>
  The ways a call of the modelled code can fail to return. \<open>NullPointer\<close> is the
  dereference of a null (or dangling) pointer, \<open>OutOfRange\<close> an uncaught
  \<open>std::out_of_range\<close>, \<open>UninitializedRead\<close> the use of a local that no extraction
  has written, and \<open>CounterOverflow\<close> an \<open>int\<close> loop counter running past its bound
  (a count above \<open>INT_MAX\<close>). IEEE division never traps; the model reports
  a division whose divisor is zero as \<open>DivisionByZero\<close>, so that its absence can be stated.
\<close>

datatype error = NullPointer | DivisionByZero | OutOfRange | UninitializedRead | CounterOverflow

definition checked_div :: "double \<Rightarrow> double \<Rightarrow> error + double" where
  "checked_div a b = (if b = Finite 0 then Inl DivisionByZero else Inr (ddiv a b))"

section \<open>Belief nodes and the store\<close>

text \<open>
  \<open>BeliefNode\<close> is defined elsewhere in the repository. The record has the members the
  code reads: the id (\<open>getId\<close>), the particle count (\<open>getNParticles\<close>), the two sequence counters,
  the cached value (\<open>getQValue\<close>) and the action mapping handed to the constructor.
  Belief nodes live in a store and are referred to by address; a \<open>unique_ptr\<close> or raw
  pointer is an optional address, \<open>None\<close> being \<open>nullptr\<close>.
\<close>

type_synonym addr = nat

record 'am BeliefNode =
  bn_id :: long
  bn_nParticles :: long
  numberOfStartingSequences :: long
  numberOfEndingSequences :: long
  bn_qValue :: double
  bn_actionMap :: 'am

record ('am, 'p) store =
  nodes :: "addr \<Rightarrow> 'am BeliefNode option"
  nextAddr :: addr
  pool :: 'p

text \<open>
  The collaborators defined elsewhere in the repository are parameters: the action pool's
  \<open>createActionMapping\<close> (which may change the pool), the \<open>BeliefNode\<close> constructor and
  \<open>BeliefNode::recalculateQValue\<close>.
\<close>

record ('am, 'p) collaborators =
  createActionMapping :: "'p \<Rightarrow> 'am \<times> 'p"
  newBeliefNode :: "'am \<Rightarrow> 'am BeliefNode"
  bn_recalculateQValue :: "'am BeliefNode \<Rightarrow> 'am BeliefNode"

section \<open>DiscreteObservationMap\<close>

record DiscreteObservationMapEntry =
  childNode :: "addr option"
  visitCount :: long

definition defaultEntry :: DiscreteObservationMapEntry where
  "defaultEntry = \<lparr>childNode = None, visitCount = 0\<rparr>"

text \<open>
  The \<open>std::unordered_map\<close> keyed by the contents of the observation is a list of
  key-value pairs with at most one pair per key (observations are compared by their
  \<open>equals\<close>, here HOL equality). \<open>umap_at\<close> is \<open>at\<close> (with \<open>None\<close> for
  \<open>std::out_of_range\<close>), \<open>umap_emplace\<close> is \<open>emplace\<close>, which leaves the map alone when
  the key is present, and \<open>umap_modify k f\<close> is \<open>m[k] = f(m[k])\<close>, where \<open>operator[]\<close>
  first inserts a default entry when the key is absent.
\<close>

type_synonym 'o ChildMap = "('o \<times> DiscreteObservationMapEntry) list"

definition umap_at :: "'o ChildMap \<Rightarrow> 'o \<Rightarrow> DiscreteObservationMapEntry option" where
  "umap_at m k = map_of m k"

definition umap_emplace ::
  "'o \<Rightarrow> DiscreteObservationMapEntry \<Rightarrow> 'o ChildMap \<Rightarrow> 'o ChildMap \<times> bool" where
  "umap_emplace k e m = (case map_of m k of None \<Rightarrow> (m @ [(k, e)], True) | Some _ \<Rightarrow> (m, False))"

fun umap_modify ::
  "'o \<Rightarrow> (DiscreteObservationMapEntry \<Rightarrow> DiscreteObservationMapEntry) \<Rightarrow> 'o ChildMap \<Rightarrow> 'o ChildMap" where
  "umap_modify k f [] = [(k, f defaultEntry)]"
| "umap_modify k f ((k', e) # m) =
     (if k' = k then (k', f e) # m else (k', e) # umap_modify k f m)"

record 'o DiscreteObservationMap =
  childMap :: "'o ChildMap"
  totalVisitCount :: long

definition newDiscreteObservationMap :: "'o DiscreteObservationMap" where
  "newDiscreteObservationMap = \<lparr>childMap = [], totalVisitCount = 0\<rparr>"

definition getBelief :: "'o DiscreteObservationMap \<Rightarrow> 'o \<Rightarrow> addr option" where
  "getBelief m obs = (case umap_at (childMap m) obs of None \<Rightarrow> None | Some e \<Rightarrow> childNode e)"

text \<open>
  \<open>createBelief\<close> allocates the node, moves it into a new entry and emplaces the entry.
  When the key is already present the emplace does nothing and the entry, with the node it
  owns, is destroyed on return: the address handed back is then no longer in the store.
\<close>

definition createBelief ::
  "('am, 'p) collaborators \<Rightarrow> 'o \<Rightarrow> 'o DiscreteObservationMap \<times> ('am, 'p) store \<Rightarrow>
     addr \<times> 'o DiscreteObservationMap \<times> ('am, 'p) store" where
  "createBelief C obs ms =
     (let (m, st) = ms;
          (am, pool') = createActionMapping C (pool st);
          nodePtr = nextAddr st;
          entry = defaultEntry\<lparr>childNode := Some nodePtr\<rparr>;
          (cm, inserted) = umap_emplace obs entry (childMap m)
      in (nodePtr, m\<lparr>childMap := cm\<rparr>,
          st\<lparr>nodes := (if inserted then (nodes st)(nodePtr \<mapsto> newBeliefNode C am) else nodes st),
             nextAddr := Suc nodePtr, pool := pool'\<rparr>))"

definition getNChildren :: "'o DiscreteObservationMap \<Rightarrow> nat" where
  "getNChildren m = length (childMap m)"

definition updateVisitCount :: "'o \<Rightarrow> long \<Rightarrow> 'o DiscreteObservationMap \<Rightarrow> 'o DiscreteObservationMap" where
  "updateVisitCount obs deltaNVisits m =
     m\<lparr>childMap := umap_modify obs (\<lambda>e. e\<lparr>visitCount := visitCount e + deltaNVisits\<rparr>) (childMap m),
       totalVisitCount := totalVisitCount m + deltaNVisits\<rparr>"

definition getVisitCount :: "'o DiscreteObservationMap \<Rightarrow> 'o \<Rightarrow> error + long" where
  "getVisitCount m obs =
     (case umap_at (childMap m) obs of None \<Rightarrow> Inl OutOfRange | Some e \<Rightarrow> Inr (visitCount e))"

definition getTotalVisitCount :: "'o DiscreteObservationMap \<Rightarrow> long" where
  "getTotalVisitCount m = totalVisitCount m"

section \<open>ActionNode\<close>

record 'o ActionNode =
  nParticles :: long
  totalQValue :: double
  meanQValue :: double
  obsMap :: "'o DiscreteObservationMap option"

definition newActionNode :: "'o DiscreteObservationMap option \<Rightarrow> 'o ActionNode" where
  "newActionNode mapping =
     \<lparr>nParticles = 0, totalQValue = Finite 0, meanQValue = NegInf, obsMap = mapping\<rparr>"

definition recalculateQValue :: "'o ActionNode \<Rightarrow> error + 'o ActionNode" where
  "recalculateQValue node =
     (if 0 <s nParticles node then
        (case checked_div (totalQValue node) (of_long (nParticles node)) of
           Inl e \<Rightarrow> Inl e
         | Inr q \<Rightarrow> Inr (node\<lparr>meanQValue := q\<rparr>))
      else Inr (node\<lparr>totalQValue := Finite 0, meanQValue := NegInf\<rparr>))"

definition changeTotalQValue :: "double \<Rightarrow> long \<Rightarrow> 'o ActionNode \<Rightarrow> error + 'o ActionNode" where
  "changeTotalQValue deltaQ deltaNParticles node =
     recalculateQValue
       (node\<lparr>totalQValue := dadd (totalQValue node) deltaQ,
             nParticles := nParticles node + deltaNParticles\<rparr>)"

definition getChild :: "'o ActionNode \<Rightarrow> 'o \<Rightarrow> error + addr option" where
  "getChild node obs =
     (case obsMap node of None \<Rightarrow> Inl NullPointer | Some m \<Rightarrow> Inr (getBelief m obs))"

definition updateSequenceCount ::
  "('am, 'p) collaborators \<Rightarrow> 'o \<Rightarrow> double \<Rightarrow> long \<Rightarrow> 'o ActionNode \<times> ('am, 'p) store \<Rightarrow>
     error + ('o ActionNode \<times> ('am, 'p) store)" where
  "updateSequenceCount C observation discountFactor deltaNParticles ns =
     (let (node, st) = ns in
      case getChild node observation of
        Inl e \<Rightarrow> Inl e
      | Inr None \<Rightarrow> Inl NullPointer
      | Inr (Some childBelief) \<Rightarrow>
          (case nodes st childBelief of
             None \<Rightarrow> Inl NullPointer
           | Some child \<Rightarrow>
               (let newSequenceCount =
                      bn_nParticles child - numberOfStartingSequences child
                        + numberOfEndingSequences child;
                    oldSequenceCount = newSequenceCount - deltaNParticles;
                    oldChildQ = bn_qValue child;
                    child' = bn_recalculateQValue C child;
                    newChildQ = bn_qValue child';
                    st' = st\<lparr>nodes := (nodes st)(childBelief \<mapsto> child')\<rparr>;
                    total1 =
                      (if oldSequenceCount \<noteq> 0
                       then dsub (totalQValue node)
                              (dmul (dmul (of_long oldSequenceCount) discountFactor) oldChildQ)
                       else totalQValue node);
                    total2 =
                      (if newSequenceCount \<noteq> 0
                       then dadd total1
                              (dmul (dmul (of_long newSequenceCount) discountFactor) newChildQ)
                       else total1)
                in case recalculateQValue
                          (node\<lparr>totalQValue := total2,
                                nParticles := nParticles node + deltaNParticles\<rparr>) of
                     Inl e \<Rightarrow> Inl e
                   | Inr node' \<Rightarrow> Inr (node', st'))))"

definition createOrGetChild ::
  "('am, 'p) collaborators \<Rightarrow> 'o \<Rightarrow> 'o ActionNode \<times> ('am, 'p) store \<Rightarrow>
     error + ((addr \<times> bool) \<times> 'o ActionNode \<times> ('am, 'p) store)" where
  "createOrGetChild C obs ns =
     (let (node, st) = ns in
      case obsMap node of
        None \<Rightarrow> Inl NullPointer
      | Some m \<Rightarrow>
          (case getBelief m obs of
             Some beliefChild \<Rightarrow> Inr ((beliefChild, False), node, st)
           | None \<Rightarrow>
               (let (beliefChild, m', st') = createBelief C obs (m, st)
                in Inr ((beliefChild, True), node\<lparr>obsMap := Some m'\<rparr>, st'))))"

section \<open>Example configurations\<close>

text \<open>
  Concrete collaborators, a store with one belief node at address 0 and an action node
  whose mapping has that node as the child for observation 0; the theorems below are
  evaluated on them.
\<close>

definition demoCollaborators :: "(unit, unit) collaborators" where
  "demoCollaborators =
     \<lparr>createActionMapping = (\<lambda>p. ((), p)),
      newBeliefNode = (\<lambda>am. \<lparr>bn_id = 0, bn_nParticles = 0, numberOfStartingSequences = 0,
                              numberOfEndingSequences = 0, bn_qValue = NegInf, bn_actionMap = am\<rparr>),
      bn_recalculateQValue = (\<lambda>b. b)\<rparr>"

definition demoChild :: "long \<Rightarrow> unit BeliefNode" where
  "demoChild n =
     \<lparr>bn_id = 7, bn_nParticles = n, numberOfStartingSequences = 0,
      numberOfEndingSequences = 0, bn_qValue = Finite 2, bn_actionMap = ()\<rparr>"

definition demoStore :: "long \<Rightarrow> (unit, unit) store" where
  "demoStore n =
     \<lparr>nodes = (\<lambda>a. if a = 0 then Some (demoChild n) else None), nextAddr = 1, pool = ()\<rparr>"

definition demoMap :: "nat DiscreteObservationMap" where
  "demoMap = \<lparr>childMap = [(0, \<lparr>childNode = Some 0, visitCount = 1\<rparr>)], totalVisitCount = 1\<rparr>"

definition demoNode :: "nat ActionNode" where
  "demoNode =
     \<lparr>nParticles = 1, totalQValue = Finite 5, meanQValue = Finite 5, obsMap = Some demoMap\<rparr>"

section \<open>Properties of the action node\<close>

text \<open>The mean is the total over the count for a positive count, the sentinel otherwise.\<close>

definition meanQ_consistent :: "'o ActionNode \<Rightarrow> bool" where
  "meanQ_consistent node =
     (if 0 <s nParticles node
      then meanQValue node = ddiv (totalQValue node) (of_long (nParticles node))
      else meanQValue node = NegInf)"

text \<open>The observation has a live child belief node under the action node.\<close>

definition hasChild :: "'o ActionNode \<Rightarrow> ('am, 'p) store \<Rightarrow> 'o \<Rightarrow> bool" where
  "hasChild node st obs =
     (case obsMap node of
        None \<Rightarrow> False
      | Some m \<Rightarrow> (case getBelief m obs of None \<Rightarrow> False | Some a \<Rightarrow> nodes st a \<noteq> None))"

definition unvisited_reset :: "'o ActionNode \<Rightarrow> bool" where
  "unvisited_reset node =
     (nParticles node = 0 \<longrightarrow> totalQValue node = Finite 0 \<and> meanQValue node = NegInf)"

text \<open>
  The incremental formula in the words of the specification: the old sequences' share is
  taken out, the new sequences' share is put in, and a share with a zero sequence count is
  nothing.
\<close>

definition sequenceTerm :: "long \<Rightarrow> double \<Rightarrow> double \<Rightarrow> double" where
  "sequenceTerm sequenceCount discountFactor childQ =
     (if sequenceCount = 0 then Finite 0
      else dmul (dmul (of_long sequenceCount) discountFactor) childQ)"

definition incrementalTotal ::
  "double \<Rightarrow> long \<Rightarrow> double \<Rightarrow> long \<Rightarrow> double \<Rightarrow> double \<Rightarrow> double" where
  "incrementalTotal sigmaQ oldSeq oldChildQ newSeq newChildQ discountFactor =
     dadd (dsub sigmaQ (sequenceTerm oldSeq discountFactor oldChildQ))
          (sequenceTerm newSeq discountFactor newChildQ)"

lemma of_long_pos: "0 <s n \<Longrightarrow> of_long n \<noteq> Finite 0"
proof -
  assume "0 <s n"
  then have "0 < sint n" by (simp add: word_sless_alt)
  then have "real_of_int (sint n) \<noteq> 0" by linarith
  then show ?thesis unfolding of_long_def by blast
qed

lemma not_sless_zero: "\<not> (0::long) <s 0"
  by (simp add: word_sless_alt)

lemma recalculateQValue_eq:
  "recalculateQValue node =
     Inr (if 0 <s nParticles node
          then node\<lparr>meanQValue := ddiv (totalQValue node) (of_long (nParticles node))\<rparr>
          else node\<lparr>totalQValue := Finite 0, meanQValue := NegInf\<rparr>)"
  by (simp add: recalculateQValue_def checked_div_def of_long_pos)

lemma recalculateQValue_consistent:
  "recalculateQValue node = Inr node' \<Longrightarrow> meanQ_consistent node'"
  by (auto simp: recalculateQValue_eq meanQ_consistent_def split: if_splits)

lemma recalculateQValue_reset:
  "recalculateQValue node = Inr node' \<Longrightarrow> unvisited_reset node'"
  by (auto simp: recalculateQValue_eq unvisited_reset_def not_sless_zero split: if_splits)

lemma updateSequenceCount_Inr_recalc:
  "updateSequenceCount C obs g dn (node, st) = Inr (node', st') \<Longrightarrow>
     \<exists>n0. recalculateQValue n0 = Inr node'"
  by (auto simp: updateSequenceCount_def Let_def split: sum.splits option.splits)

lemma updateSequenceCount_consistent:
  "updateSequenceCount C obs g dn (node, st) = Inr (node', st') \<Longrightarrow> meanQ_consistent node'"
  by (drule updateSequenceCount_Inr_recalc) (auto dest: recalculateQValue_consistent)

lemma updateSequenceCount_reset:
  "updateSequenceCount C obs g dn (node, st) = Inr (node', st') \<Longrightarrow> unvisited_reset node'"
  by (drule updateSequenceCount_Inr_recalc) (auto dest: recalculateQValue_reset)

lemma updateSequenceCount_succeeds_iff:
  "(\<exists>node' st'. updateSequenceCount C obs g dn (node, st) = Inr (node', st'))
     \<longleftrightarrow> hasChild node st obs"
  by (auto simp: updateSequenceCount_def hasChild_def getChild_def Let_def recalculateQValue_eq
           split: sum.splits option.splits)

lemma updateSequenceCount_error:
  "updateSequenceCount C obs g dn (node, st) = Inl e \<Longrightarrow>
     e = NullPointer \<and> \<not> hasChild node st obs"
  by (auto simp: updateSequenceCount_def hasChild_def getChild_def Let_def recalculateQValue_eq
           split: sum.splits option.splits)

lemma dadd_zero: "dadd x (Finite 0) = x"
  by (cases x) simp_all

lemma dsub_zero: "dsub x (Finite 0) = x"
  by (simp add: dsub_def dadd_zero)

text \<open>
  Claim C1, as the code has it. For an observation with a live child belief node,
  \<open>updateSequenceCount\<close> returns; the child is recalculated in the store; the visit count
  becomes \<open>n + deltaNParticles\<close>; and when that count is positive the total is the
  incremental formula and the mean is the total over the count. When the new count is not
  positive, the recomputation of the mean resets the total to 0 and the mean to minus
  infinity.
\<close>

theorem updateSequenceCount_incremental:
  assumes "obsMap node = Some m" and "getBelief m obs = Some a" and "nodes st a = Some child"
  shows "let newSeq = bn_nParticles child - numberOfStartingSequences child
                        + numberOfEndingSequences child;
             oldSeq = newSeq - deltaNParticles;
             child' = bn_recalculateQValue C child;
             t = incrementalTotal (totalQValue node) oldSeq (bn_qValue child)
                   newSeq (bn_qValue child') discountFactor;
             n' = nParticles node + deltaNParticles
         in updateSequenceCount C obs discountFactor deltaNParticles (node, st) =
              Inr (node\<lparr>nParticles := n',
                        totalQValue := (if 0 <s n' then t else Finite 0),
                        meanQValue := (if 0 <s n' then ddiv t (of_long n') else NegInf)\<rparr>,
                   st\<lparr>nodes := (nodes st)(a \<mapsto> child')\<rparr>)"
  using assms
  by (simp add: updateSequenceCount_def getChild_def Let_def recalculateQValue_eq
        incrementalTotal_def sequenceTerm_def dadd_zero dsub_zero)

theorem updateSequenceCount_incremental_witness:
  "obsMap demoNode = Some demoMap \<and> getBelief demoMap 0 = Some 0
   \<and> nodes (demoStore 2) 0 = Some (demoChild 2)
   \<and> updateSequenceCount demoCollaborators 0 (Finite 1) 1 (demoNode, demoStore 2) =
       Inr (demoNode\<lparr>nParticles := 2, totalQValue := Finite 7, meanQValue := Finite (7 / 2)\<rparr>,
            (demoStore 2)\<lparr>nodes := (nodes (demoStore 2))(0 \<mapsto> demoChild 2)\<rparr>)"
proof -
  have h1: "obsMap demoNode = Some demoMap" by (simp add: demoNode_def)
  have h2: "getBelief demoMap 0 = Some 0" by (simp add: demoMap_def getBelief_def umap_at_def)
  have h3: "nodes (demoStore 2) 0 = Some (demoChild 2)" by (simp add: demoStore_def)
  show ?thesis
    using h1 h2 h3
      updateSequenceCount_incremental [where C = demoCollaborators and deltaNParticles = 1
        and discountFactor = "Finite 1", OF h1 h2 h3]
    by (simp add: Let_def demoCollaborators_def demoChild_def demoNode_def incrementalTotal_def
          sequenceTerm_def dsub_def of_long_def word_sless_alt)
qed

text \<open>
  The claim as stated fails when the update leaves no particle: the node has one particle
  and total 5, the child has no particle left and value 2, and one particle is taken away.
  The formula gives 5 - 1 * 1 * 2 = 3; the node's total afterwards is 0.
\<close>

theorem updateSequenceCount_total_counterexample:
  "map_sum id (totalQValue \<circ> fst)
     (updateSequenceCount demoCollaborators 0 (Finite 1) (- 1) (demoNode, demoStore 0)) =
     Inr (Finite 0)
   \<and> incrementalTotal (totalQValue demoNode) 1 (Finite 2) 0 (Finite 2) (Finite 1) = Finite 3"
  by (simp add: updateSequenceCount_def getChild_def Let_def recalculateQValue_eq
        incrementalTotal_def sequenceTerm_def dsub_def of_long_def word_sless_alt
        demoCollaborators_def demoChild_def demoNode_def demoMap_def demoStore_def
        getBelief_def umap_at_def)

text \<open>
  Claim C2. A new action node has a consistent mean; \<open>changeTotalQValue\<close> always returns,
  with a consistent mean; \<open>updateSequenceCount\<close> leaves a consistent mean whenever it
  returns, never divides by zero, and returns whenever the observation has a live child
  (without one it dereferences a null pointer, before any statistic is touched).
\<close>

theorem actionNode_meanQ:
  "meanQ_consistent (newActionNode mapping)
   \<and> (\<exists>node'. changeTotalQValue deltaQ deltaN node = Inr node' \<and> meanQ_consistent node')
   \<and> (\<forall>node' st'. updateSequenceCount C obs g dn (node, st) = Inr (node', st')
          \<longrightarrow> meanQ_consistent node')
   \<and> updateSequenceCount C obs g dn (node, st) \<noteq> Inl DivisionByZero
   \<and> (hasChild node st obs
        \<longrightarrow> (\<exists>node' st'. updateSequenceCount C obs g dn (node, st) = Inr (node', st')))"
proof (intro conjI)
  show "meanQ_consistent (newActionNode mapping)"
    by (simp add: meanQ_consistent_def newActionNode_def not_sless_zero)
  show "\<exists>node'. changeTotalQValue deltaQ deltaN node = Inr node' \<and> meanQ_consistent node'"
    unfolding changeTotalQValue_def
    using recalculateQValue_consistent recalculateQValue_eq by blast
  show "\<forall>node' st'. updateSequenceCount C obs g dn (node, st) = Inr (node', st')
          \<longrightarrow> meanQ_consistent node'"
    by (auto dest: updateSequenceCount_consistent)
  show "updateSequenceCount C obs g dn (node, st) \<noteq> Inl DivisionByZero"
    using updateSequenceCount_error by fastforce
  show "hasChild node st obs
        \<longrightarrow> (\<exists>node' st'. updateSequenceCount C obs g dn (node, st) = Inr (node', st'))"
    by (simp add: updateSequenceCount_succeeds_iff)
qed

theorem actionNode_meanQ_witness:
  "hasChild demoNode (demoStore 2) 0
   \<and> (\<exists>node' st'. updateSequenceCount demoCollaborators 0 (Finite 1) 1 (demoNode, demoStore 2)
                      = Inr (node', st') \<and> meanQ_consistent node')
   \<and> (\<exists>node'. changeTotalQValue (Finite 3) (- 1) demoNode = Inr node'
                 \<and> meanQ_consistent node' \<and> meanQValue node' = NegInf)"
proof -
  have h: "hasChild demoNode (demoStore 2) (0::nat)"
    by (simp add: hasChild_def demoNode_def demoMap_def demoStore_def getBelief_def umap_at_def)
  have c: "changeTotalQValue (Finite 3) (- 1) demoNode =
             Inr (demoNode\<lparr>totalQValue := Finite 0, nParticles := 0, meanQValue := NegInf\<rparr>)"
    by (simp add: changeTotalQValue_def recalculateQValue_eq demoNode_def not_sless_zero)
  note T = actionNode_meanQ [where node = demoNode and st = "demoStore 2" and obs = 0
        and C = demoCollaborators and g = "Finite 1" and dn = 1 and deltaQ = "Finite 3"
        and deltaN = "- 1" and mapping = None]
  from T h obtain node' st' where
    r: "updateSequenceCount demoCollaborators 0 (Finite 1) 1 (demoNode, demoStore 2)
          = Inr (node', st')"
    by blast
  with T have m: "meanQ_consistent node'" by blast
  from T obtain node'' where
    c': "changeTotalQValue (Finite 3) (- 1) demoNode = Inr node''" and m': "meanQ_consistent node''"
    by blast
  from c c' have "meanQValue node'' = NegInf" by auto
  with h r m c' m' show ?thesis by blast
qed

text \<open>
  Claim C10. Every operation of the action node leaves the invariant that a node with no
  particle has total 0 and mean minus infinity: the constructor, \<open>recalculateQValue\<close>,
  \<open>changeTotalQValue\<close> and \<open>updateSequenceCount\<close> establish it from any state, and
  \<open>createOrGetChild\<close> keeps it (it does not touch the statistics). In particular an update
  that brings the count to 0 drops the accumulated total.
\<close>

theorem actionNode_unvisited_reset:
  "unvisited_reset (newActionNode mapping)
   \<and> (\<exists>node'. recalculateQValue node = Inr node' \<and> unvisited_reset node')
   \<and> (\<exists>node'. changeTotalQValue deltaQ deltaN node = Inr node' \<and> unvisited_reset node')
   \<and> (\<forall>node' st'. updateSequenceCount C obs g dn (node, st) = Inr (node', st')
          \<longrightarrow> unvisited_reset node')
   \<and> (\<forall>r node' st'. unvisited_reset node \<and> createOrGetChild C obs (node, st) = Inr (r, node', st')
          \<longrightarrow> unvisited_reset node')
   \<and> (nParticles node + deltaN = 0
        \<longrightarrow> changeTotalQValue deltaQ deltaN node =
              Inr (node\<lparr>totalQValue := Finite 0, nParticles := 0, meanQValue := NegInf\<rparr>))"
proof (intro conjI)
  show "unvisited_reset (newActionNode mapping)"
    by (simp add: unvisited_reset_def newActionNode_def)
  show "\<exists>node'. recalculateQValue node = Inr node' \<and> unvisited_reset node'"
    using recalculateQValue_reset recalculateQValue_eq by blast
  show "\<exists>node'. changeTotalQValue deltaQ deltaN node = Inr node' \<and> unvisited_reset node'"
    unfolding changeTotalQValue_def
    using recalculateQValue_reset recalculateQValue_eq by blast
  show "\<forall>node' st'. updateSequenceCount C obs g dn (node, st) = Inr (node', st')
          \<longrightarrow> unvisited_reset node'"
    by (auto dest: updateSequenceCount_reset)
  show "\<forall>r node' st'. unvisited_reset node \<and> createOrGetChild C obs (node, st) = Inr (r, node', st')
          \<longrightarrow> unvisited_reset node'"
    by (auto simp: createOrGetChild_def unvisited_reset_def Let_def
             split: option.splits prod.splits)
  show "nParticles node + deltaN = 0
        \<longrightarrow> changeTotalQValue deltaQ deltaN node =
              Inr (node\<lparr>totalQValue := Finite 0, nParticles := 0, meanQValue := NegInf\<rparr>)"
    by (simp add: changeTotalQValue_def recalculateQValue_eq not_sless_zero)
qed

theorem actionNode_unvisited_reset_witness:
  "nParticles (newActionNode None :: nat ActionNode) + 0 = 0
   \<and> changeTotalQValue (Finite 4) 0 (newActionNode None :: nat ActionNode) =
       Inr (newActionNode None)
   \<and> unvisited_reset (newActionNode None :: nat ActionNode)
   \<and> (\<exists>node' st'. updateSequenceCount demoCollaborators 0 (Finite 1) (- 1)
                      (demoNode, demoStore 0) = Inr (node', st')
                    \<and> nParticles node' = 0 \<and> unvisited_reset node')"
proof -
  have u: "\<exists>node' st'. updateSequenceCount demoCollaborators 0 (Finite 1) (- 1)
                      (demoNode, demoStore 0) = Inr (node', st') \<and> nParticles node' = 0"
    by (simp add: updateSequenceCount_def getChild_def Let_def recalculateQValue_eq
        demoCollaborators_def demoChild_def demoNode_def demoMap_def demoStore_def
        getBelief_def umap_at_def)
  then obtain node' st' where
    r: "updateSequenceCount demoCollaborators 0 (Finite 1) (- 1) (demoNode, demoStore 0)
          = Inr (node', st')" and z: "nParticles node' = 0"
    by blast
  note T1 = actionNode_unvisited_reset [where node = "newActionNode None :: nat ActionNode"
        and mapping = None and deltaQ = "Finite 4" and deltaN = 0 and st = "demoStore 0"
        and obs = 0 and C = demoCollaborators and g = "Finite 1" and dn = "- 1"]
  note T2 = actionNode_unvisited_reset [where node = demoNode and st = "demoStore 0"
        and obs = 0 and C = demoCollaborators and g = "Finite 1" and dn = "- 1"
        and mapping = None and deltaQ = "Finite 4" and deltaN = 0]
  from T2 r have v: "unvisited_reset node'" by blast
  have n0: "nParticles (newActionNode None :: nat ActionNode) + 0 = 0"
    by (simp add: newActionNode_def)
  with T1 have "changeTotalQValue (Finite 4) 0 (newActionNode None :: nat ActionNode) =
       Inr ((newActionNode None)\<lparr>totalQValue := Finite 0, nParticles := 0, meanQValue := NegInf\<rparr>)"
    by blast
  then have c: "changeTotalQValue (Finite 4) 0 (newActionNode None :: nat ActionNode) =
       Inr (newActionNode None)"
    by (simp add: newActionNode_def)
  from T1 have i: "unvisited_reset (newActionNode None :: nat ActionNode)" by blast
  from n0 c i r z v show ?thesis by blast
qed

section \<open>Properties of the discrete observation mapping\<close>

text \<open>
  A run of the mapping: any sequence of \<open>createBelief\<close> and \<open>updateVisitCount\<close> calls.
\<close>

datatype 'o mapOp = CreateBelief 'o | UpdateVisitCount 'o long

fun applyOp ::
  "('am, 'p) collaborators \<Rightarrow> 'o DiscreteObservationMap \<times> ('am, 'p) store \<Rightarrow> 'o mapOp \<Rightarrow>
     'o DiscreteObservationMap \<times> ('am, 'p) store" where
  "applyOp C ms (CreateBelief obs) = snd (createBelief C obs ms)"
| "applyOp C ms (UpdateVisitCount obs deltaNVisits) =
     (updateVisitCount obs deltaNVisits (fst ms), snd ms)"

definition runOps ::
  "('am, 'p) collaborators \<Rightarrow> 'o mapOp list \<Rightarrow> 'o DiscreteObservationMap \<times> ('am, 'p) store \<Rightarrow>
     'o DiscreteObservationMap \<times> ('am, 'p) store" where
  "runOps C ops ms = foldl (applyOp C) ms ops"

definition sumVisitCounts :: "'o DiscreteObservationMap \<Rightarrow> long" where
  "sumVisitCounts m = sum_list (map (\<lambda>(obs, e). visitCount e) (childMap m))"

definition nChildNodes :: "'o DiscreteObservationMap \<Rightarrow> nat" where
  "nChildNodes m = length (filter (\<lambda>(obs, e). childNode e \<noteq> None) (childMap m))"

lemma sum_umap_modify:
  "sum_list (map (\<lambda>(obs, e). visitCount e)
      (umap_modify k (\<lambda>e. e\<lparr>visitCount := visitCount e + d\<rparr>) m)) =
   sum_list (map (\<lambda>(obs, e). visitCount e) m) + d"
  by (induction m) (auto simp: defaultEntry_def)

lemma sum_umap_emplace:
  "visitCount e = 0 \<Longrightarrow>
   sum_list (map (\<lambda>(obs, e). visitCount e) (fst (umap_emplace k e m))) =
   sum_list (map (\<lambda>(obs, e). visitCount e) m)"
  by (simp add: umap_emplace_def split: option.splits)

lemma updateVisitCount_sum:
  "totalVisitCount m = sumVisitCounts m \<Longrightarrow>
   totalVisitCount (updateVisitCount obs d m) = sumVisitCounts (updateVisitCount obs d m)"
  by (simp add: updateVisitCount_def sumVisitCounts_def sum_umap_modify)

lemma createBelief_map:
  "fst (snd (createBelief C obs (m, st))) =
     m\<lparr>childMap := fst (umap_emplace obs (defaultEntry\<lparr>childNode := Some (nextAddr st)\<rparr>)
                          (childMap m))\<rparr>"
  by (simp add: createBelief_def Let_def split: prod.splits)

lemma createBelief_sum:
  "totalVisitCount m = sumVisitCounts m \<Longrightarrow>
   totalVisitCount (fst (snd (createBelief C obs (m, st)))) =
     sumVisitCounts (fst (snd (createBelief C obs (m, st))))"
  by (simp add: createBelief_map sumVisitCounts_def sum_umap_emplace defaultEntry_def)

lemma applyOp_sum:
  "totalVisitCount (fst ms) = sumVisitCounts (fst ms) \<Longrightarrow>
   totalVisitCount (fst (applyOp C ms op)) = sumVisitCounts (fst (applyOp C ms op))"
  by (cases op; cases ms) (simp_all add: createBelief_sum updateVisitCount_sum)

lemma runOps_sum:
  "totalVisitCount (fst ms) = sumVisitCounts (fst ms) \<Longrightarrow>
   totalVisitCount (fst (runOps C ops ms)) = sumVisitCounts (fst (runOps C ops ms))"
  unfolding runOps_def
  by (induction ops arbitrary: ms) (simp_all add: applyOp_sum)

text \<open>
  Claim C4. After any finite sequence of \<open>createBelief\<close> and \<open>updateVisitCount\<close> calls on
  a freshly constructed mapping, \<open>getTotalVisitCount\<close> is the sum of the visit counts of
  the entries (in 64-bit arithmetic, as both are computed).
\<close>

theorem totalVisitCount_is_sum:
  "getTotalVisitCount (fst (runOps C ops (newDiscreteObservationMap, st))) =
     sumVisitCounts (fst (runOps C ops (newDiscreteObservationMap, st)))"
  unfolding getTotalVisitCount_def
  by (rule runOps_sum) (simp add: newDiscreteObservationMap_def sumVisitCounts_def)

lemma umap_modify_absent:
  "map_of m k = None \<Longrightarrow> umap_modify k f m = m @ [(k, f defaultEntry)]"
  by (induction m) (auto split: if_splits)

text \<open>
  Claim C9. \<open>updateVisitCount\<close> for an observation without an entry creates an entry with a
  null child and visit count \<open>k\<close>: one more child is reported, the total grows by \<open>k\<close>,
  \<open>getBelief\<close> still returns null, and the number of entries that own a belief node is
  unchanged, so it is less than \<open>getNChildren\<close>.
\<close>

theorem updateVisitCount_unseen:
  assumes "umap_at (childMap m) obs = None"
  shows "let m' = updateVisitCount obs k m in
           umap_at (childMap m') obs = Some \<lparr>childNode = None, visitCount = k\<rparr>
           \<and> getNChildren m' = getNChildren m + 1
           \<and> getTotalVisitCount m' = getTotalVisitCount m + k
           \<and> sumVisitCounts m' = sumVisitCounts m + k
           \<and> getBelief m' obs = None
           \<and> nChildNodes m' = nChildNodes m
           \<and> nChildNodes m' < getNChildren m'"
proof -
  from assms have a: "map_of (childMap m) obs = None" by (simp add: umap_at_def)
  show ?thesis
    by (simp add: Let_def updateVisitCount_def umap_modify_absent [OF a] umap_at_def a
          getNChildren_def getTotalVisitCount_def sumVisitCounts_def getBelief_def
          nChildNodes_def defaultEntry_def map_add_def less_Suc_eq_le)
qed

theorem updateVisitCount_unseen_witness:
  "umap_at (childMap demoMap) (5::nat) = None
   \<and> getNChildren (updateVisitCount 5 3 demoMap) = 2
   \<and> getTotalVisitCount (updateVisitCount 5 3 demoMap) = 4
   \<and> getBelief (updateVisitCount 5 3 demoMap) 5 = None
   \<and> nChildNodes (updateVisitCount 5 3 demoMap) = 1"
proof -
  have h: "umap_at (childMap demoMap) (5::nat) = None"
    by (simp add: umap_at_def demoMap_def)
  show ?thesis
    using h updateVisitCount_unseen [OF h, of 3]
    by (simp add: Let_def getNChildren_def getTotalVisitCount_def nChildNodes_def demoMap_def)
qed


lemma getBelief_emplaced:
  "map_of cm obs = None \<Longrightarrow>
   getBelief (m\<lparr>childMap := cm @ [(obs, e)]\<rparr>) k =
     (if k = obs then childNode e else getBelief (m\<lparr>childMap := cm\<rparr>) k)"
  by (auto simp: getBelief_def umap_at_def map_add_def split: option.splits)

lemma createBelief_unseen:
  assumes "umap_at (childMap m) obs = None"
  shows "createBelief C obs (m, st) =
           (nextAddr st,
            m\<lparr>childMap := childMap m @ [(obs, \<lparr>childNode = Some (nextAddr st), visitCount = 0\<rparr>)]\<rparr>,
            st\<lparr>nodes := (nodes st)(nextAddr st \<mapsto>
                             newBeliefNode C (fst (createActionMapping C (pool st)))),
               nextAddr := Suc (nextAddr st),
               pool := snd (createActionMapping C (pool st))\<rparr>)"
  using assms
  by (simp add: createBelief_def umap_emplace_def umap_at_def Let_def defaultEntry_def
           split: prod.splits)

text \<open>
  Claim C3, as the code has it. \<open>getBelief\<close> returns null exactly when the observation has
  no entry or its entry has a null child. For an observation without an entry,
  \<open>createBelief\<close> returns the newly allocated address, \<open>getBelief\<close> returns it afterwards,
  and the node there is built from the mapping the action pool produced.
  \<open>createOrGetChild\<close> returns an existing child with \<open>added = false\<close>, and for an
  observation without an entry creates the child and returns it with \<open>added = true\<close>.
\<close>

theorem observation_children:
  "(getBelief m obs = None \<longleftrightarrow>
      (case umap_at (childMap m) obs of None \<Rightarrow> True | Some e \<Rightarrow> childNode e = None))
   \<and> (umap_at (childMap m) obs = None \<longrightarrow>
        (\<exists>m' st'. createBelief C obs (m, st) = (nextAddr st, m', st')
           \<and> getBelief m' obs = Some (nextAddr st)
           \<and> nodes st' (nextAddr st) =
               Some (newBeliefNode C (fst (createActionMapping C (pool st))))))
   \<and> (\<forall>a. obsMap node = Some m \<and> getBelief m obs = Some a \<longrightarrow>
          createOrGetChild C obs (node, st) = Inr ((a, False), node, st))
   \<and> (obsMap node = Some m \<and> umap_at (childMap m) obs = None \<longrightarrow>
        (\<exists>m' st'. createOrGetChild C obs (node, st) =
                     Inr ((nextAddr st, True), node\<lparr>obsMap := Some m'\<rparr>, st')
           \<and> getBelief m' obs = Some (nextAddr st)
           \<and> nodes st' (nextAddr st) =
               Some (newBeliefNode C (fst (createActionMapping C (pool st))))))"
proof (intro conjI)
  show "getBelief m obs = None \<longleftrightarrow>
      (case umap_at (childMap m) obs of None \<Rightarrow> True | Some e \<Rightarrow> childNode e = None)"
    by (simp add: getBelief_def split: option.splits)
  show "umap_at (childMap m) obs = None \<longrightarrow>
        (\<exists>m' st'. createBelief C obs (m, st) = (nextAddr st, m', st')
           \<and> getBelief m' obs = Some (nextAddr st)
           \<and> nodes st' (nextAddr st) =
               Some (newBeliefNode C (fst (createActionMapping C (pool st)))))"
    by (simp add: createBelief_unseen getBelief_emplaced umap_at_def)
  show "\<forall>a. obsMap node = Some m \<and> getBelief m obs = Some a \<longrightarrow>
          createOrGetChild C obs (node, st) = Inr ((a, False), node, st)"
    by (simp add: createOrGetChild_def)
  show "obsMap node = Some m \<and> umap_at (childMap m) obs = None \<longrightarrow>
        (\<exists>m' st'. createOrGetChild C obs (node, st) =
                     Inr ((nextAddr st, True), node\<lparr>obsMap := Some m'\<rparr>, st')
           \<and> getBelief m' obs = Some (nextAddr st)
           \<and> nodes st' (nextAddr st) =
               Some (newBeliefNode C (fst (createActionMapping C (pool st)))))"
  proof (intro impI, elim conjE)
    assume a: "obsMap node = Some m" and b: "umap_at (childMap m) obs = None"
    let ?m' = "m\<lparr>childMap := childMap m @
                 [(obs, \<lparr>childNode = Some (nextAddr st), visitCount = 0\<rparr>)]\<rparr>"
    let ?st' = "st\<lparr>nodes := (nodes st)(nextAddr st \<mapsto>
                             newBeliefNode C (fst (createActionMapping C (pool st)))),
               nextAddr := Suc (nextAddr st),
               pool := snd (createActionMapping C (pool st))\<rparr>"
    from b have g: "getBelief m obs = None" by (simp add: getBelief_def)
    have 1: "createOrGetChild C obs (node, st) =
               Inr ((nextAddr st, True), node\<lparr>obsMap := Some ?m'\<rparr>, ?st')"
      using a g by (simp add: createOrGetChild_def createBelief_unseen [OF b])
    have 2: "getBelief ?m' obs = Some (nextAddr st)"
      using b by (simp add: getBelief_emplaced umap_at_def)
    have 3: "nodes ?st' (nextAddr st) =
               Some (newBeliefNode C (fst (createActionMapping C (pool st))))"
      by simp
    from 1 2 3 show "\<exists>m' st'. createOrGetChild C obs (node, st) =
                     Inr ((nextAddr st, True), node\<lparr>obsMap := Some m'\<rparr>, st')
           \<and> getBelief m' obs = Some (nextAddr st)
           \<and> nodes st' (nextAddr st) =
               Some (newBeliefNode C (fst (createActionMapping C (pool st))))"
      by blast
  qed
qed

theorem observation_children_witness:
  "umap_at (childMap demoMap) (5::nat) = None
   \<and> obsMap demoNode = Some demoMap \<and> getBelief demoMap 0 = Some 0
   \<and> createOrGetChild demoCollaborators 0 (demoNode, demoStore 1) =
       Inr ((0, False), demoNode, demoStore 1)
   \<and> (\<exists>m' st'. createOrGetChild demoCollaborators 5 (demoNode, demoStore 1) =
                  Inr ((1, True), demoNode\<lparr>obsMap := Some m'\<rparr>, st')
         \<and> getBelief m' 5 = Some 1
         \<and> nodes st' 1 = Some (newBeliefNode demoCollaborators ()))"
proof -
  have h1: "umap_at (childMap demoMap) (5::nat) = None"
    by (simp add: umap_at_def demoMap_def)
  have h2: "obsMap demoNode = Some demoMap" by (simp add: demoNode_def)
  have h3: "getBelief demoMap 0 = Some 0" by (simp add: demoMap_def getBelief_def umap_at_def)
  note T0 = observation_children [where m = demoMap and obs = 0 and node = demoNode
      and C = demoCollaborators and st = "demoStore 1"]
  note T5 = observation_children [where m = demoMap and obs = 5 and node = demoNode
      and C = demoCollaborators and st = "demoStore 1"]
  from T0 h2 h3 have a: "createOrGetChild demoCollaborators 0 (demoNode, demoStore 1) =
       Inr ((0, False), demoNode, demoStore 1)"
    by blast
  from T5 h1 h2 have "\<exists>m' st'. createOrGetChild demoCollaborators 5 (demoNode, demoStore 1) =
                     Inr ((nextAddr (demoStore 1), True), demoNode\<lparr>obsMap := Some m'\<rparr>, st')
           \<and> getBelief m' 5 = Some (nextAddr (demoStore 1))
           \<and> nodes st' (nextAddr (demoStore 1)) =
               Some (newBeliefNode demoCollaborators
                      (fst (createActionMapping demoCollaborators (pool (demoStore 1)))))"
    by blast
  then have b: "\<exists>m' st'. createOrGetChild demoCollaborators 5 (demoNode, demoStore 1) =
                  Inr ((1, True), demoNode\<lparr>obsMap := Some m'\<rparr>, st')
         \<and> getBelief m' 5 = Some 1
         \<and> nodes st' 1 = Some (newBeliefNode demoCollaborators ())"
    by (simp add: demoStore_def)
  from h1 h2 h3 a b show ?thesis by blast
qed

text \<open>
  The claim as stated fails for an entry made by \<open>updateVisitCount\<close>: the entry exists and
  \<open>getBelief\<close> returns null; and a \<open>createBelief\<close> for that observation leaves the
  mapping without a child for it.
\<close>

theorem getBelief_null_entry_counterexample:
  "umap_at (childMap (updateVisitCount (5::nat) 3 newDiscreteObservationMap)) 5 =
     Some \<lparr>childNode = None, visitCount = 3\<rparr>
   \<and> getBelief (updateVisitCount (5::nat) 3 newDiscreteObservationMap) 5 = None
   \<and> getBelief
       (fst (snd (createBelief demoCollaborators 5
                    (updateVisitCount (5::nat) 3 newDiscreteObservationMap, demoStore 1)))) 5 = None"
  by (simp add: updateVisitCount_def newDiscreteObservationMap_def umap_at_def getBelief_def
        defaultEntry_def createBelief_def umap_emplace_def demoCollaborators_def demoStore_def)

section \<open>The 2-D navigation model\<close>

text \<open>
  The geometry classes (\<open>Point2D\<close>, \<open>Vector2D\<close>, \<open>Rectangle2D\<close>) and \<open>Nav2DState\<close> are
  defined elsewhere in the repository. Points and vectors are pairs of doubles with the
  componentwise operators and the Euclidean magnitude; a state holds what its constructor is
  given. The polar constructor \<open>Vector2D(magnitude, direction)\<close> and
  \<open>Rectangle2D::contains\<close> are parameters (\<open>geometry\<close>). Directions and turn amounts are in
  revolutions, as the quarter turn 0.25 and the arc length
  \<open>2 * M_PI * actualTurnAmount * radius\<close> show. The member \<open>interpolationStepCount_\<close>
  is taken to be a \<open>long\<close>, like the loop counter it is compared with.
\<close>

type_synonym Point2D = "double \<times> double"
type_synonym Vector2D = "double \<times> double"

record Rectangle2D =
  lowerLeft :: Point2D
  upperRight :: Point2D

definition point_plus :: "Point2D \<Rightarrow> Vector2D \<Rightarrow> Point2D" where
  "point_plus p v = (dadd (fst p) (fst v), dadd (snd p) (snd v))"

definition point_minus :: "Point2D \<Rightarrow> Point2D \<Rightarrow> Vector2D" where
  "point_minus p q = (dsub (fst p) (fst q), dsub (snd p) (snd q))"

definition scalar_times :: "double \<Rightarrow> Vector2D \<Rightarrow> Vector2D" where
  "scalar_times c v = (dmul c (fst v), dmul c (snd v))"

fun dsqrt :: "double \<Rightarrow> double" where
  "dsqrt (Finite a) = (if a < 0 then NaN else Finite (sqrt a))"
| "dsqrt PosInf = PosInf"
| "dsqrt _ = NaN"

fun dabs :: "double \<Rightarrow> double" where
  "dabs (Finite a) = Finite \<bar>a\<bar>"
| "dabs NaN = NaN"
| "dabs _ = PosInf"

definition getMagnitude :: "Vector2D \<Rightarrow> double" where
  "getMagnitude v = dsqrt (dadd (dmul (fst v) (fst v)) (dmul (snd v) (snd v)))"

record geometry =
  polarVector :: "double \<Rightarrow> double \<Rightarrow> Vector2D"
  rectContains :: "Rectangle2D \<Rightarrow> Point2D \<Rightarrow> bool"

datatype AreaType = EMPTY | WORLD | START | OBSERVATION | GOAL | OBSTACLE | OUT_OF_BOUNDS

type_synonym AreasById = "(long \<times> Rectangle2D) list"

record Nav2DModel =
  timeStepLength :: double
  costPerUnitTime :: double
  interpolationStepCount :: long
  crashPenalty :: double
  goalReward :: double
  maxSpeed :: double
  costPerUnitDistance :: double
  costPerRevolution :: double
  mapArea :: Rectangle2D
  startAreas :: AreasById
  observationAreas :: AreasById
  goalAreas :: AreasById
  obstacles :: AreasById

record Nav2DState =
  st_x :: double
  st_y :: double
  st_direction :: double
  st_costPerUnitDistance :: double
  st_costPerRevolution :: double

definition getPosition :: "Nav2DState \<Rightarrow> Point2D" where
  "getPosition s = (st_x s, st_y s)"

fun getAreas :: "Nav2DModel \<Rightarrow> AreaType \<Rightarrow> AreasById option" where
  "getAreas M GOAL = Some (goalAreas M)"
| "getAreas M OBSTACLE = Some (obstacles M)"
| "getAreas M START = Some (startAreas M)"
| "getAreas M OBSERVATION = Some (observationAreas M)"
| "getAreas M _ = None"

definition isInside :: "geometry \<Rightarrow> Nav2DModel \<Rightarrow> Point2D \<Rightarrow> AreaType \<Rightarrow> error + bool" where
  "isInside G M point type =
     (case getAreas M type of
        None \<Rightarrow> Inl NullPointer
      | Some areas \<Rightarrow> Inr (list_ex (\<lambda>entry. rectContains G (snd entry) point) areas))"

text \<open>
  The second argument of the two \<open>Vector2D\<close> constructions in \<open>tryPath\<close>,
  \<open>direction + turnAmount > 0 ? 0.25 : -0.25\<close>: the addition binds tighter than the
  comparison, and the comparison tighter than the conditional.
\<close>

definition turnAngle :: "double \<Rightarrow> double \<Rightarrow> double" where
  "turnAngle direction turnAmount =
     (if dless (Finite 0) (dadd direction turnAmount) then Finite 0.25 else Finite (- 0.25))"

text \<open>
  The locals of \<open>tryPath\<close> that the interpolation loop changes, and those it only reads.
  The loop is a recursion on the step; a collision restores the previous position and
  leaves the loop, as does reaching a goal area.
\<close>

record pathState =
  currentScalar :: double
  currentPosition :: Point2D
  currentDirection :: double
  inGoal :: bool
  hasCollision :: bool

record pathConstants =
  pc_position :: Point2D
  pc_direction :: double
  pc_radius :: double
  pc_turnAmount :: double
  pc_velocity :: Vector2D
  pc_center :: Point2D

function tryPathLoop ::
  "geometry \<Rightarrow> Nav2DModel \<Rightarrow> pathConstants \<Rightarrow> int \<Rightarrow> pathState \<Rightarrow> error + pathState" where
  "tryPathLoop G M K step s =
     (if step \<le> sint (interpolationStepCount M) then
        (let scalar = ddiv (Finite (real_of_int step)) (of_long (interpolationStepCount M));
             direction' =
               (if deq (pc_turnAmount K) (Finite 0) then currentDirection s
                else dadd (pc_direction K) (dmul scalar (pc_turnAmount K)));
             position' =
               (if deq (pc_turnAmount K) (Finite 0)
                then point_plus (pc_position K) (scalar_times scalar (pc_velocity K))
                else point_plus (pc_center K)
                       (polarVector G (pc_radius K) (turnAngle direction' (pc_turnAmount K))))
         in if \<not> rectContains G (mapArea M) position' then Inr (s\<lparr>hasCollision := True\<rparr>)
            else case isInside G M position' OBSTACLE of
              Inl e \<Rightarrow> Inl e
            | Inr True \<Rightarrow> Inr (s\<lparr>hasCollision := True\<rparr>)
            | Inr False \<Rightarrow>
                (let s' = s\<lparr>currentScalar := scalar, currentPosition := position',
                             currentDirection := direction'\<rparr>
                 in case isInside G M position' GOAL of
                      Inl e \<Rightarrow> Inl e
                    | Inr True \<Rightarrow> Inr (s'\<lparr>inGoal := True\<rparr>)
                    | Inr False \<Rightarrow> tryPathLoop G M K (step + 1) s'))
      else Inr s)"
  by pat_completeness auto
termination
  by (relation "measure (\<lambda>(G, M, K, step, s). nat (sint (interpolationStepCount M) + 1 - step))")
     auto

declare tryPathLoop.simps [simp del]

text \<open>
  \<open>tryPathTrace\<close> is \<open>tryPath\<close> up to the end of the loop, so that the collision flag can
  be read; \<open>tryPath\<close> then builds the resulting state and the reward.
\<close>

definition tryPathTrace ::
  "geometry \<Rightarrow> Nav2DModel \<Rightarrow> Nav2DState \<Rightarrow> double \<Rightarrow> double \<Rightarrow> error + pathState" where
  "tryPathTrace G M state speed rotationalSpeed =
     (let position = getPosition state;
          direction = st_direction state;
          radius = ddiv speed (dmul (dmul (Finite 2) (Finite pi)) rotationalSpeed);
          turnAmount = dmul rotationalSpeed (timeStepLength M);
          velocity = polarVector G speed direction;
          center = point_plus position (polarVector G radius (turnAngle direction turnAmount))
      in tryPathLoop G M
           \<lparr>pc_position = position, pc_direction = direction, pc_radius = radius,
            pc_turnAmount = turnAmount, pc_velocity = velocity, pc_center = center\<rparr>
           1
           \<lparr>currentScalar = Finite 0, currentPosition = position, currentDirection = direction,
            inGoal = False, hasCollision = False\<rparr>)"

definition tryPath ::
  "geometry \<Rightarrow> Nav2DModel \<Rightarrow> Nav2DState \<Rightarrow> double \<Rightarrow> double \<Rightarrow> error + (Nav2DState \<times> double)" where
  "tryPath G M state speed rotationalSpeed =
     (case tryPathTrace G M state speed rotationalSpeed of
        Inl e \<Rightarrow> Inl e
      | Inr s \<Rightarrow>
          (let position = getPosition state;
               radius = ddiv speed (dmul (dmul (Finite 2) (Finite pi)) rotationalSpeed);
               turnAmount = dmul rotationalSpeed (timeStepLength M);
               resultingState =
                 \<lparr>st_x = fst (currentPosition s), st_y = snd (currentPosition s),
                  st_direction = currentDirection s,
                  st_costPerUnitDistance = costPerUnitDistance M,
                  st_costPerRevolution = costPerRevolution M\<rparr>;
               actualTurnAmount =
                 (if deq turnAmount (Finite 0) then Finite 0
                  else dabs (dmul (currentScalar s) turnAmount));
               actualDistance =
                 (if deq turnAmount (Finite 0)
                  then getMagnitude (point_minus (currentPosition s) position)
                  else dmul (dmul (dmul (Finite 2) (Finite pi)) actualTurnAmount) radius);
               reward0 = dsub (Finite 0) (dmul (costPerUnitTime M) (timeStepLength M));
               reward1 = dsub reward0 (dmul (costPerUnitDistance M) actualDistance);
               reward2 = dsub reward1 (dmul (costPerRevolution M) actualTurnAmount);
               reward3 = (if inGoal s then dadd reward2 (goalReward M) else reward2);
               reward4 = (if hasCollision s then dsub reward3 (crashPenalty M) else reward3)
           in Inr (resultingState, reward4)))"


text \<open>
  The scenario of the straight path: \<open>tryPath\<close> applied \<open>n\<close> times from a state, the
  rewards added up and the collision flags collected.
\<close>

fun applyPath ::
  "geometry \<Rightarrow> Nav2DModel \<Rightarrow> double \<Rightarrow> double \<Rightarrow> nat \<Rightarrow> Nav2DState \<times> double \<times> bool \<Rightarrow>
     error + (Nav2DState \<times> double \<times> bool)" where
  "applyPath G M speed rotationalSpeed 0 acc = Inr acc"
| "applyPath G M speed rotationalSpeed (Suc n) (state, accumulated, collided) =
     (case tryPathTrace G M state speed rotationalSpeed of
        Inl e \<Rightarrow> Inl e
      | Inr tr \<Rightarrow>
          (case tryPath G M state speed rotationalSpeed of
             Inl e \<Rightarrow> Inl e
           | Inr (state', reward) \<Rightarrow>
               applyPath G M speed rotationalSpeed n
                 (state', dadd accumulated reward, collided \<or> hasCollision tr)))"

text \<open>
  The setting of the scenario: full speed 1, unit time step, ten interpolation steps, no
  obstacles, a heading \<open>d\<close> whose unit vector is \<open>(0, 1)\<close>, a world that contains the
  segment from \<open>(0, 0)\<close> to \<open>(0, 5)\<close> and no goal area on it.
\<close>

definition straightScenario :: "geometry \<Rightarrow> Nav2DModel \<Rightarrow> double \<Rightarrow> bool" where
  "straightScenario G M d \<longleftrightarrow>
     maxSpeed M = Finite 1 \<and> timeStepLength M = Finite 1 \<and> interpolationStepCount M = 10
     \<and> obstacles M = []
     \<and> polarVector G (Finite 1) d = (Finite 0, Finite 1)
     \<and> (\<forall>y. 0 \<le> y \<and> y \<le> 5 \<longrightarrow> rectContains G (mapArea M) (Finite 0, Finite y))
     \<and> (\<forall>y. 0 \<le> y \<and> y \<le> 5 \<longrightarrow>
           \<not> list_ex (\<lambda>entry. rectContains G (snd entry) (Finite 0, Finite y)) (goalAreas M))"

lemma loop_straight:
  assumes sc: "straightScenario G M d"
    and K: "pc_turnAmount K = Finite 0" "pc_position K = (Finite 0, Finite y)"
           "pc_velocity K = (Finite 0, Finite 1)"
    and y: "0 \<le> y" "y \<le> 4"
  shows "1 \<le> k \<Longrightarrow> k \<le> 11 \<Longrightarrow>
         tryPathLoop G M K k
           \<lparr>currentScalar = Finite (real_of_int (k - 1) / 10),
            currentPosition = (Finite 0, Finite (y + real_of_int (k - 1) / 10)),
            currentDirection = d, inGoal = False, hasCollision = False\<rparr> =
         Inr \<lparr>currentScalar = Finite 1, currentPosition = (Finite 0, Finite (y + 1)),
              currentDirection = d, inGoal = False, hasCollision = False\<rparr>"
proof (induction "nat (11 - k)" arbitrary: k)
  case 0
  then have k: "k = 11" by simp
  from sc have n: "sint (interpolationStepCount M) = 10"
    by (simp add: straightScenario_def)
  show ?case
    by (subst tryPathLoop.simps) (simp add: k n)
next
  case (Suc n)
  then have k: "1 \<le> k" "k \<le> 10" by simp_all
  from sc have cnt: "interpolationStepCount M = 10" and obs: "obstacles M = []"
    by (simp_all add: straightScenario_def)
  have n: "sint (interpolationStepCount M) = 10" by (simp add: cnt)
  have ol: "of_long (interpolationStepCount M) = Finite 10" by (simp add: cnt of_long_def)
  let ?y' = "y + real_of_int k / 10"
  have pos: "point_plus (Finite 0, Finite y)
               (scalar_times (Finite (real_of_int k / 10)) (Finite 0, Finite 1)) =
             (Finite 0, Finite ?y')"
    by (simp add: point_plus_def scalar_times_def)
  have range: "0 \<le> ?y'" "?y' \<le> 5" using k y by simp_all
  with sc have inmap: "rectContains G (mapArea M) (Finite 0, Finite ?y')"
    and nogoal: "\<not> list_ex (\<lambda>entry. rectContains G (snd entry) (Finite 0, Finite ?y')) (goalAreas M)"
    by (simp_all add: straightScenario_def)
  have io: "isInside G M (Finite 0, Finite ?y') OBSTACLE = Inr False"
    by (simp add: isInside_def obs)
  have ig: "isInside G M (Finite 0, Finite ?y') GOAL = Inr False"
    using nogoal by (simp add: isInside_def)
  have IH: "tryPathLoop G M K (k + 1)
           \<lparr>currentScalar = Finite (real_of_int k / 10),
            currentPosition = (Finite 0, Finite ?y'),
            currentDirection = d, inGoal = False, hasCollision = False\<rparr> =
         Inr \<lparr>currentScalar = Finite 1, currentPosition = (Finite 0, Finite (y + 1)),
              currentDirection = d, inGoal = False, hasCollision = False\<rparr>"
    using Suc.hyps(1) [of "k + 1"] Suc.hyps(2) k by simp
  show ?case
    apply (subst tryPathLoop.simps)
    using k
    apply (simp add: n ol K deq_def Let_def pos inmap io ig IH)
    done
qed

lemma straight_trace:
  assumes sc: "straightScenario G M d" and y: "0 \<le> y" "y \<le> 4"
  shows "tryPathTrace G M
           \<lparr>st_x = Finite 0, st_y = Finite y, st_direction = d,
            st_costPerUnitDistance = cud, st_costPerRevolution = cpr\<rparr> (Finite 1) (Finite 0) =
         Inr \<lparr>currentScalar = Finite 1, currentPosition = (Finite 0, Finite (y + 1)),
              currentDirection = d, inGoal = False, hasCollision = False\<rparr>"
proof -
  from sc have v: "polarVector G (Finite 1) d = (Finite 0, Finite 1)"
    and t: "timeStepLength M = Finite 1"
    by (simp_all add: straightScenario_def)
  show ?thesis
    unfolding tryPathTrace_def Let_def
    using loop_straight [OF sc _ _ _ y, of _ 1] 
    by (simp add: v t getPosition_def)
qed


text \<open>The angle the specification intends: a quarter turn added to the direction.\<close>

definition intendedAngle :: "double \<Rightarrow> double \<Rightarrow> double" where
  "intendedAngle direction turnAmount =
     dadd direction (if dless (Finite 0) turnAmount then Finite 0.25 else Finite (- 0.25))"

text \<open>
  A concrete geometry for evaluation: the polar constructor with exact cosine and sine of
  the direction in revolutions, and closed rectangles.
\<close>

fun dcos :: "double \<Rightarrow> double" where
  "dcos (Finite a) = Finite (cos a)"
| "dcos _ = NaN"

fun dsin :: "double \<Rightarrow> double" where
  "dsin (Finite a) = Finite (sin a)"
| "dsin _ = NaN"

fun closedRectContains :: "Point2D \<Rightarrow> Point2D \<Rightarrow> Point2D \<Rightarrow> bool" where
  "closedRectContains (Finite x0, Finite y0) (Finite x1, Finite y1) (Finite x, Finite y) =
     (x0 \<le> x \<and> x \<le> x1 \<and> y0 \<le> y \<and> y \<le> y1)"
| "closedRectContains _ _ _ = False"

definition idealGeometry :: geometry where
  "idealGeometry =
     \<lparr>polarVector = (\<lambda>magnitude direction.
        (dmul magnitude (dcos (dmul (dmul direction (Finite 2)) (Finite pi))),
         dmul magnitude (dsin (dmul (dmul direction (Finite 2)) (Finite pi))))),
      rectContains = (\<lambda>r p. closedRectContains (lowerLeft r) (upperRight r) p)\<rparr>"

definition demoModel :: Nav2DModel where
  "demoModel =
     \<lparr>timeStepLength = Finite 1, costPerUnitTime = Finite 1, interpolationStepCount = 10,
      crashPenalty = Finite 100, goalReward = Finite 50, maxSpeed = Finite 1,
      costPerUnitDistance = Finite 2, costPerRevolution = Finite 3,
      mapArea = \<lparr>lowerLeft = (Finite (- 10), Finite (- 10)), upperRight = (Finite 10, Finite 10)\<rparr>,
      startAreas = [], observationAreas = [], goalAreas = [], obstacles = []\<rparr>"

lemma straight_step:
  assumes sc: "straightScenario G M d" and y: "0 \<le> y" "y \<le> 4"
    and costs: "costPerUnitTime M = Finite ct" "costPerUnitDistance M = Finite cd"
               "costPerRevolution M = Finite cr"
  shows "tryPath G M
           \<lparr>st_x = Finite 0, st_y = Finite y, st_direction = d,
            st_costPerUnitDistance = a, st_costPerRevolution = b\<rparr> (Finite 1) (Finite 0) =
         Inr (\<lparr>st_x = Finite 0, st_y = Finite (y + 1), st_direction = d,
               st_costPerUnitDistance = Finite cd, st_costPerRevolution = Finite cr\<rparr>,
              Finite (- ct - cd))"
proof -
  from sc have t: "timeStepLength M = Finite 1" by (simp add: straightScenario_def)
  show ?thesis
    unfolding tryPath_def
    by (simp add: straight_trace [OF sc y] Let_def t costs deq_def getPosition_def
          getMagnitude_def point_minus_def dsub_def)
qed

lemma applyPath_straight:
  assumes sc: "straightScenario G M d"
    and costs: "costPerUnitTime M = Finite ct" "costPerUnitDistance M = Finite cd"
               "costPerRevolution M = Finite cr"
  shows "0 \<le> y \<Longrightarrow> y + real n \<le> 5 \<Longrightarrow>
         applyPath G M (Finite 1) (Finite 0) n
           (\<lparr>st_x = Finite 0, st_y = Finite y, st_direction = d,
             st_costPerUnitDistance = a, st_costPerRevolution = b\<rparr>, Finite r, False) =
         Inr (\<lparr>st_x = Finite 0, st_y = Finite (y + real n), st_direction = d,
               st_costPerUnitDistance = (if n = 0 then a else Finite cd),
               st_costPerRevolution = (if n = 0 then b else Finite cr)\<rparr>,
              Finite (r + real n * (- ct - cd)), False)"
proof (induction n arbitrary: y a b r)
  case 0
  then show ?case by simp
next
  case (Suc n)
  from Suc.prems have y: "0 \<le> y" "y \<le> 4" by simp_all
  have IH: "applyPath G M (Finite 1) (Finite 0) n
           (\<lparr>st_x = Finite 0, st_y = Finite (y + 1), st_direction = d,
             st_costPerUnitDistance = Finite cd, st_costPerRevolution = Finite cr\<rparr>,
            Finite (r + (- ct - cd)), False) =
         Inr (\<lparr>st_x = Finite 0, st_y = Finite (y + 1 + real n), st_direction = d,
               st_costPerUnitDistance = Finite cd, st_costPerRevolution = Finite cr\<rparr>,
              Finite (r + (- ct - cd) + real n * (- ct - cd)), False)"
    using Suc.IH [of "y + 1" "Finite cd" "Finite cr" "r + (- ct - cd)"] Suc.prems by simp
  show ?case
    using IH
    by (simp add: straight_trace [OF sc y] straight_step [OF sc y costs] algebra_simps)
qed

text \<open>
  Claim C6. In the setting of the scenario, with finite costs, five applications of
  \<open>tryPath\<close> at full speed and zero rotational speed from \<open>(0, 0)\<close> end at \<open>(0, 5)\<close>
  (so within 0.01 of it), none of them has a collision, and the rewards add up to
  \<open>- 5 * costPerUnitTime - 5 * costPerUnitDistance\<close>.
\<close>

theorem straight_path_five_steps:
  assumes sc: "straightScenario G M d"
    and costs: "costPerUnitTime M = Finite ct" "costPerUnitDistance M = Finite cd"
               "costPerRevolution M = Finite cr"
  shows "\<exists>final. applyPath G M (maxSpeed M) (Finite 0) 5
           (\<lparr>st_x = Finite 0, st_y = Finite 0, st_direction = d,
             st_costPerUnitDistance = a, st_costPerRevolution = b\<rparr>,
            Finite 0, False) =
           Inr (final, Finite (- 5 * ct - 5 * cd), False)
         \<and> getPosition final = (Finite 0, Finite 5)
         \<and> dless (getMagnitude (point_minus (getPosition final) (Finite 0, Finite 5)))
              (Finite 0.01)"
proof -
  from sc have ms: "maxSpeed M = Finite 1" by (simp add: straightScenario_def)
  have "applyPath G M (Finite 1) (Finite 0) 5
           (\<lparr>st_x = Finite 0, st_y = Finite 0, st_direction = d,
             st_costPerUnitDistance = a, st_costPerRevolution = b\<rparr>,
            Finite 0, False) =
         Inr (\<lparr>st_x = Finite 0, st_y = Finite 5, st_direction = d,
               st_costPerUnitDistance = Finite cd, st_costPerRevolution = Finite cr\<rparr>,
              Finite (- 5 * ct - 5 * cd), False)"
    using applyPath_straight [OF sc costs, of 0 5 a b 0] by simp
  then show ?thesis
    by (simp add: ms getPosition_def getMagnitude_def point_minus_def dsub_def)
qed

lemma demo_scenario: "straightScenario idealGeometry demoModel (Finite (1 / 4))"
  by (simp add: straightScenario_def idealGeometry_def demoModel_def)

theorem straight_path_five_steps_witness:
  "straightScenario idealGeometry demoModel (Finite (1 / 4))
   \<and> (\<exists>final. applyPath idealGeometry demoModel (Finite 1) (Finite 0) 5
           (\<lparr>st_x = Finite 0, st_y = Finite 0, st_direction = Finite (1 / 4),
             st_costPerUnitDistance = Finite 2, st_costPerRevolution = Finite 3\<rparr>,
            Finite 0, False) =
           Inr (final, Finite (- 15), False)
         \<and> getPosition final = (Finite 0, Finite 5))"
proof -
  have c: "costPerUnitTime demoModel = Finite 1" "costPerUnitDistance demoModel = Finite 2"
          "costPerRevolution demoModel = Finite 3"
    by (simp_all add: demoModel_def)
  have m: "maxSpeed demoModel = Finite 1" by (simp add: demoModel_def)
  from straight_path_five_steps [OF demo_scenario c, of "Finite 2" "Finite 3"] m demo_scenario
  show ?thesis by auto
qed

text \<open>
  Claim C7. The angle the code uses is not the intended one: facing a quarter turn and
  turning a quarter turn, the code uses 0.25 where the intended angle is 0.5; facing
  \<open>- 3/8\<close> and turning a quarter turn, the code uses \<open>- 0.25\<close> where the intended angle is
  \<open>- 1/8\<close>.
\<close>

theorem turnAngle_ignores_direction:
  "turnAngle (Finite (1 / 4)) (Finite (1 / 4)) = Finite (1 / 4)
   \<and> intendedAngle (Finite (1 / 4)) (Finite (1 / 4)) = Finite (1 / 2)
   \<and> turnAngle (Finite (- 3 / 8)) (Finite (1 / 4)) = Finite (- 1 / 4)
   \<and> intendedAngle (Finite (- 3 / 8)) (Finite (1 / 4)) = Finite (- 1 / 8)"
  by (simp add: turnAngle_def intendedAngle_def)

section \<open>Text streams\<close>

text \<open>
  An input stream (\<open>std::ifstream\<close>, \<open>std::istringstream\<close>) is the text not yet read
  and the fail and end-of-file bits. Every extraction starts with the sentry: nothing is
  read from a stream that is not good, and the formatted extractions skip white space first.
  An extraction returns \<open>None\<close> when it leaves its target untouched.
  \<open>operator>>\<close> for \<open>long\<close> reads an optional sign and decimal digits, stores 0 and
  fails when there is no digit, and stores the nearest bound and fails when the value does
  not fit. \<open>getline\<close> erases its target and reads up to the delimiter, which it drops; it
  fails when it reads nothing at all.
\<close>

record istream =
  buf :: string
  failbit :: bool
  eofbit :: bool

definition istringstream :: "string \<Rightarrow> istream" where
  "istringstream str = \<lparr>buf = str, failbit = False, eofbit = False\<rparr>"

definition isspace :: "char \<Rightarrow> bool" where
  "isspace c \<longleftrightarrow> c \<in> set [CHR '' '', CHR 0x09, CHR 0x0A, CHR 0x0B, CHR 0x0C, CHR 0x0D]"

definition digits :: string where
  "digits = ''0123456789''"

definition isdigit :: "char \<Rightarrow> bool" where
  "isdigit c \<longleftrightarrow> c \<in> set digits"

definition digit_val :: "char \<Rightarrow> nat" where
  "digit_val c = length (takeWhile (\<lambda>d. d \<noteq> c) digits)"

definition digit_char :: "nat \<Rightarrow> char" where
  "digit_char n = digits ! n"

definition sentry :: "istream \<Rightarrow> bool \<times> istream" where
  "sentry s =
     (if failbit s \<or> eofbit s then (False, s\<lparr>failbit := True\<rparr>)
      else let r = dropWhile isspace (buf s)
           in if r = [] then (False, s\<lparr>buf := [], failbit := True, eofbit := True\<rparr>)
              else (True, s\<lparr>buf := r\<rparr>))"

definition read_string :: "istream \<Rightarrow> string option \<times> istream" where
  "read_string s =
     (case sentry s of
        (False, s') \<Rightarrow> (None, s')
      | (True, s') \<Rightarrow>
          (let w = takeWhile (\<lambda>c. \<not> isspace c) (buf s');
               r = dropWhile (\<lambda>c. \<not> isspace c) (buf s')
           in (Some w, s'\<lparr>buf := r, eofbit := (r = [])\<rparr>)))"

definition parse_nat :: "string \<Rightarrow> nat" where
  "parse_nat ds = foldl (\<lambda>acc c. 10 * acc + digit_val c) 0 ds"

definition LONG_MAX :: int where "LONG_MAX = 9223372036854775807"
definition LONG_MIN :: int where "LONG_MIN = - 9223372036854775808"

fun split_sign :: "string \<Rightarrow> bool \<times> string" where
  "split_sign [] = (False, [])"
| "split_sign (c # cs) =
     (if c = CHR ''-'' then (True, cs) else if c = CHR ''+'' then (False, cs) else (False, c # cs))"

definition scan_long :: "string \<Rightarrow> int option \<times> string" where
  "scan_long text =
     (let (negative, body) = split_sign text;
          ds = takeWhile isdigit body;
          r = dropWhile isdigit body
      in (if ds = [] then None
          else Some (if negative then - int (parse_nat ds) else int (parse_nat ds)), r))"

definition read_long :: "istream \<Rightarrow> long option \<times> istream" where
  "read_long s =
     (case sentry s of
        (False, s') \<Rightarrow> (None, s')
      | (True, s') \<Rightarrow>
          (case scan_long (buf s') of
             (None, r) \<Rightarrow> (Some 0, s'\<lparr>buf := r, failbit := True, eofbit := (r = [])\<rparr>)
           | (Some v, r) \<Rightarrow>
               if v < LONG_MIN then
                 (Some (word_of_int LONG_MIN), s'\<lparr>buf := r, failbit := True, eofbit := (r = [])\<rparr>)
               else if LONG_MAX < v then
                 (Some (word_of_int LONG_MAX), s'\<lparr>buf := r, failbit := True, eofbit := (r = [])\<rparr>)
               else (Some (word_of_int v), s'\<lparr>buf := r, eofbit := (r = [])\<rparr>)))"

definition getline_delim :: "char \<Rightarrow> istream \<Rightarrow> string option \<times> istream" where
  "getline_delim delim s =
     (if failbit s \<or> eofbit s then (None, s\<lparr>failbit := True\<rparr>)
      else let l = takeWhile (\<lambda>c. c \<noteq> delim) (buf s)
           in case dropWhile (\<lambda>c. c \<noteq> delim) (buf s) of
                [] \<Rightarrow> (Some l, s\<lparr>buf := [], failbit := (l = []), eofbit := True\<rparr>)
              | _ # r \<Rightarrow> (Some l, s\<lparr>buf := r\<rparr>))"

definition getline :: "istream \<Rightarrow> string option \<times> istream" where
  "getline s = getline_delim (CHR 0x0A) s"

text \<open>\<open>operator<<\<close> for \<open>long\<close>: decimal digits, with a minus sign when negative.\<close>

fun show_nat :: "nat \<Rightarrow> string" where
  "show_nat n = (if n < 10 then [digit_char n] else show_nat (n div 10) @ [digit_char (n mod 10)])"

declare show_nat.simps [simp del]

definition show_long :: "long \<Rightarrow> string" where
  "show_long v = (if sint v < 0 then CHR ''-'' # show_nat (nat (- sint v)) else show_nat (nat (sint v)))"


section \<open>Loading the changes of the navigation model\<close>

text \<open>
  \<open>Nav2DChange\<close>, the container \<open>changes_\<close> (a map from time to the changes of that
  time) and the extraction of a \<open>Rectangle2D\<close> are defined elsewhere in the repository.
  The rectangle reader is a parameter, and so are the contents \<open>blank\<close> of a
  default-constructed change; its operation is the empty string.
\<close>

record Nav2DChange =
  operation :: string
  changeType :: AreaType
  changeId :: long
  area :: Rectangle2D

definition parseAreaType :: "string \<Rightarrow> AreaType" where
  "parseAreaType text =
     (if text = ''World'' then WORLD
      else if text = ''Start'' then START
      else if text = ''Observation'' then OBSERVATION
      else if text = ''Goal'' then GOAL
      else if text = ''Obstacle'' then OBSTACLE
      else if text = ''Empty'' then EMPTY
      else if text = ''OOB'' then OUT_OF_BOUNDS
      else EMPTY)"

type_synonym rectangleReader = "istream \<Rightarrow> Rectangle2D \<Rightarrow> Rectangle2D \<times> istream"

definition parseChangeLine :: "rectangleReader \<Rightarrow> Nav2DChange \<Rightarrow> string \<Rightarrow> Nav2DChange option" where
  "parseChangeLine readRectangle blank line =
     (let sstr = istringstream line;
          (op, sstr1) = read_string sstr;
          change = blank\<lparr>operation := (case op of None \<Rightarrow> [] | Some w \<Rightarrow> w)\<rparr>
      in if operation change \<noteq> ''ADD'' then None
         else (let (ts, sstr2) = read_string sstr1;
                   typeString = (case ts of None \<Rightarrow> [] | Some w \<Rightarrow> w);
                   change1 = change\<lparr>changeType := parseAreaType typeString\<rparr>;
                   (idr, sstr3) = read_long sstr2;
                   change2 = (case idr of None \<Rightarrow> change1 | Some v \<Rightarrow> change1\<lparr>changeId := v\<rparr>);
                   (a, sstr4) = readRectangle sstr3 (area change2)
               in Some (change2\<lparr>area := a\<rparr>)))"

type_synonym changeMap = "long \<Rightarrow> Nav2DChange list option"

definition push_back_change :: "long \<Rightarrow> Nav2DChange \<Rightarrow> changeMap \<Rightarrow> changeMap" where
  "push_back_change time change changes =
     changes(time \<mapsto> (case changes time of None \<Rightarrow> [] | Some cs \<Rightarrow> cs) @ [change])"

text \<open>
  The inner loop of \<open>loadChanges\<close>: \<open>n\<close> more lines are read (a failed \<open>getline\<close>
  leaves the previous line in place), a line whose operation is not \<open>ADD\<close> is reported
  and skipped, any other is parsed and appended to the changes of the block's time.
\<close>

fun changeLoop ::
  "rectangleReader \<Rightarrow> Nav2DChange \<Rightarrow> long \<Rightarrow> nat \<Rightarrow> istream \<times> string \<times> changeMap \<Rightarrow>
     istream \<times> string \<times> changeMap" where
  "changeLoop readRectangle blank time 0 st = st"
| "changeLoop readRectangle blank time (Suc n) (ifs, line, changes) =
     (let (got, ifs') = getline ifs;
          line' = (case got of None \<Rightarrow> line | Some l \<Rightarrow> l)
      in changeLoop readRectangle blank time n
           (ifs', line',
            (case parseChangeLine readRectangle blank line' of
               None \<Rightarrow> changes
             | Some change \<Rightarrow> push_back_change time change changes)))"

definition stream_measure :: "istream \<Rightarrow> nat" where
  "stream_measure s = (if failbit s then 0 else if eofbit s then 1 else length (buf s) + 2)"

lemma dropWhile_Cons_length: "dropWhile P xs = x # r \<Longrightarrow> length r < length xs"
  using length_dropWhile_le [of P xs] by simp

lemma getline_measure: "stream_measure (snd (getline s)) \<le> stream_measure s"
  by (auto simp: getline_def getline_delim_def stream_measure_def Let_def
           split: list.splits dest: dropWhile_Cons_length)

lemma getline_measure_less:
  "\<not> failbit (snd (getline s)) \<Longrightarrow> stream_measure (snd (getline s)) < stream_measure s"
  by (auto simp: getline_def getline_delim_def stream_measure_def Let_def
           split: list.splits if_splits dest: dropWhile_Cons_length)

lemma changeLoop_measure:
  "stream_measure (fst (changeLoop rr blank t n (ifs, line, changes))) \<le> stream_measure ifs"
proof (induction n arbitrary: ifs line changes)
  case 0
  then show ?case by simp
next
  case (Suc n)
  obtain got ifs' where g: "getline ifs = (got, ifs')" by (cases "getline ifs")
  with getline_measure [of ifs] have m: "stream_measure ifs' \<le> stream_measure ifs" by simp
  show ?case
    using g by (simp add: Let_def le_trans [OF Suc m])
qed

lemma loadLoop_decreases:
  assumes "(got, ifs1) = getline ifs" and "\<not> failbit ifs1"
    and "(ifs2, rest) = changeLoop rr blank t n (ifs1, line1, changes)"
  shows "stream_measure ifs2 < stream_measure ifs"
proof -
  from assms(1) have "ifs1 = snd (getline ifs)" by (metis snd_conv)
  with assms(2) have lt: "stream_measure ifs1 < stream_measure ifs"
    using getline_measure_less by blast
  from assms(3) have "ifs2 = fst (changeLoop rr blank t n (ifs1, line1, changes))"
    by (metis fst_conv)
  then have "stream_measure ifs2 \<le> stream_measure ifs1"
    using changeLoop_measure by blast
  with lt show ?thesis by simp
qed

text \<open>
  The outer loop reads a header line, \<open>sstr >> tmpStr >> time >> tmpStr >> nChanges\<close>,
  starts the block's list of changes afresh, appends the time and runs the inner loop.
  It ends when \<open>getline\<close> fails. The locals \<open>time\<close> and \<open>nChanges\<close> are not
  initialised: a header that writes neither is an error of the model.
\<close>

definition parseHeader :: "string \<Rightarrow> long option \<times> long option" where
  "parseHeader line =
     (let sstr = istringstream line;
          (tmp1, sstr1) = read_string sstr;
          (time, sstr2) = read_long sstr1;
          (tmp2, sstr3) = read_string sstr2;
          (nChanges, sstr4) = read_long sstr3
      in (time, nChanges))"

function loadLoop ::
  "rectangleReader \<Rightarrow> Nav2DChange \<Rightarrow> istream \<Rightarrow> string \<Rightarrow> changeMap \<Rightarrow> long list \<Rightarrow>
     error + (long list \<times> changeMap)" where
  "loadLoop readRectangle blank ifs line changes changeTimes =
     (let (got, ifs1) = getline ifs;
          line1 = (case got of None \<Rightarrow> line | Some l \<Rightarrow> l)
      in if failbit ifs1 then Inr (changeTimes, changes)
         else (case parseHeader line1 of
                 (None, _) \<Rightarrow> Inl UninitializedRead
               | (Some t, None) \<Rightarrow> Inl UninitializedRead
               | (Some t, Some n) \<Rightarrow>
                   if 2147483647 < sint n then Inl CounterOverflow
                   else (let (ifs2, line2, changes2) =
                               changeLoop readRectangle blank t (nat (sint n))
                                 (ifs1, line1, changes(t \<mapsto> []))
                         in loadLoop readRectangle blank ifs2 line2 changes2
                              (changeTimes @ [t]))))"
  by pat_completeness auto
termination
  apply (relation "measure (\<lambda>(rr, blank, ifs, line, changes, times). stream_measure ifs)")
   apply simp
  apply simp
  apply (erule (2) loadLoop_decreases)
  done

declare loadLoop.simps [simp del]

definition loadChanges ::
  "rectangleReader \<Rightarrow> Nav2DChange \<Rightarrow> string option \<Rightarrow> error + (long list \<times> changeMap)" where
  "loadChanges readRectangle blank file =
     loadLoop readRectangle blank
       (case file of
          None \<Rightarrow> \<lparr>buf = [], failbit = True, eofbit = False\<rparr>
        | Some contents \<Rightarrow> istringstream contents)
       [] Map.empty []"

section \<open>Printing and reading numbers\<close>

lemma digit_cases: "n < 10 \<Longrightarrow> n \<in> {0, 1, 2, 3, 4, 5, 6, 7, 8, 9::nat}"
  by auto

lemma digit_char_isdigit: "n < 10 \<Longrightarrow> isdigit (digit_char n)"
  by (drule digit_cases) (auto simp: isdigit_def digit_char_def digits_def)

lemma digit_val_digit_char: "n < 10 \<Longrightarrow> digit_val (digit_char n) = n"
  by (drule digit_cases) (auto simp: digit_val_def digit_char_def digits_def)

lemma isdigit_simps:
  "isdigit c \<Longrightarrow> \<not> isspace c"
  "isdigit c \<Longrightarrow> c \<noteq> CHR ''-''"
  "isdigit c \<Longrightarrow> c \<noteq> CHR ''+''"
  "isdigit c \<Longrightarrow> c \<noteq> CHR 0x0A"
  by (auto simp: isdigit_def isspace_def digits_def)

lemma show_nat_isdigit: "c \<in> set (show_nat n) \<Longrightarrow> isdigit c"
proof (induction n arbitrary: c rule: show_nat.induct)
  case (1 n)
  show ?case
  proof (cases "n < 10")
    case True
    with "1.prems" show ?thesis
      by (subst (asm) show_nat.simps) (simp add: digit_char_isdigit)
  next
    case False
    with "1.prems" "1.IH" show ?thesis
      by (subst (asm) show_nat.simps) (auto simp: digit_char_isdigit)
  qed
qed

lemma show_nat_nonempty: "show_nat n \<noteq> []"
  by (subst show_nat.simps) simp

lemma parse_show_nat: "parse_nat (show_nat n) = n"
proof (induction n rule: show_nat.induct)
  case (1 n)
  show ?case
  proof (cases "n < 10")
    case True
    then show ?thesis
      by (subst show_nat.simps) (simp add: parse_nat_def digit_val_digit_char)
  next
    case False
    with "1.IH" have "parse_nat (show_nat (n div 10)) = n div 10" by simp
    with False show ?thesis
      by (subst show_nat.simps) (simp add: parse_nat_def digit_val_digit_char)
  qed
qed

definition stops_number :: "string \<Rightarrow> bool" where
  "stops_number r \<longleftrightarrow> (case r of [] \<Rightarrow> True | c # _ \<Rightarrow> \<not> isdigit c)"

lemma takeWhile_show_nat:
  "stops_number r \<Longrightarrow> takeWhile isdigit (show_nat n @ r) = show_nat n"
  "stops_number r \<Longrightarrow> dropWhile isdigit (show_nat n @ r) = r"
  by (auto simp: stops_number_def takeWhile_append dropWhile_append show_nat_isdigit
      split: list.splits)

lemma hd_show_nat_isdigit: "\<exists>c cs. show_nat n = c # cs \<and> isdigit c"
  using show_nat_nonempty [of n] show_nat_isdigit [of _ n]
  by (cases "show_nat n") auto

lemma split_sign_show_nat: "split_sign (show_nat n @ r) = (False, show_nat n @ r)"
  using hd_show_nat_isdigit [of n] by (auto dest: isdigit_simps)

lemma sint_long_bounds: "LONG_MIN \<le> sint (v::long)" "sint (v::long) \<le> LONG_MAX"
  using sint_ge [of v] sint_lt [of v] by (simp_all add: LONG_MIN_def LONG_MAX_def)

lemma scan_long_show_long:
  assumes "stops_number r"
  shows "scan_long (show_long v @ r) = (Some (sint v), r)"
proof (cases "sint v < 0")
  case True
  then show ?thesis
    using assms
    by (simp add: scan_long_def show_long_def takeWhile_show_nat show_nat_nonempty parse_show_nat)
next
  case False
  then show ?thesis
    using assms
    by (simp add: scan_long_def show_long_def split_sign_show_nat takeWhile_show_nat
          show_nat_nonempty parse_show_nat)
qed

lemma show_long_starts: "\<exists>c cs. show_long v = c # cs \<and> \<not> isspace c"
  using hd_show_nat_isdigit [of "nat (sint v)"]
  by (auto simp: show_long_def isspace_def dest: isdigit_simps)

lemma read_long_show_long:
  assumes r: "stops_number r"
  shows "read_long \<lparr>buf = show_long v @ r, failbit = False, eofbit = False\<rparr> =
           (Some v, \<lparr>buf = r, failbit = False, eofbit = (r = [])\<rparr>)"
proof -
  obtain c cs where c: "show_long v = c # cs" "\<not> isspace c"
    using show_long_starts by blast
  then have se: "sentry \<lparr>buf = show_long v @ r, failbit = False, eofbit = False\<rparr> =
                   (True, \<lparr>buf = show_long v @ r, failbit = False, eofbit = False\<rparr>)"
    by (simp add: sentry_def)
  show ?thesis
    using sint_long_bounds [of v]
    by (simp add: read_long_def se scan_long_show_long [OF r])
qed

lemma read_long_space_show_long:
  assumes r: "stops_number r"
  shows "read_long \<lparr>buf = CHR '' '' # show_long v @ r, failbit = False, eofbit = False\<rparr> =
           (Some v, \<lparr>buf = r, failbit = False, eofbit = (r = [])\<rparr>)"
proof -
  obtain c cs where c: "show_long v = c # cs" "\<not> isspace c"
    using show_long_starts by blast
  then have se: "sentry \<lparr>buf = CHR '' '' # show_long v @ r, failbit = False, eofbit = False\<rparr> =
                   (True, \<lparr>buf = show_long v @ r, failbit = False, eofbit = False\<rparr>)"
    by (simp add: sentry_def isspace_def)
  show ?thesis
    using sint_long_bounds [of v]
    by (simp add: read_long_def se scan_long_show_long [OF r])
qed


subsection \<open>Well-formed change files\<close>

text \<open>
  A change file in the format of the specification: for each block the line
  \<open>t <time> n <count>\<close> and then \<open>count\<close> lines. \<open>storeBlock\<close> is what a block leaves
  in \<open>changes_\<close>: the parsed lines of the block, without those that were skipped.
\<close>

definition renderBlock :: "long \<times> string list \<Rightarrow> string" where
  "renderBlock b =
     ''t '' @ show_long (fst b) @ '' n '' @ show_long (of_nat (length (snd b))) @ [CHR 0x0A]
       @ concat (map (\<lambda>l. l @ [CHR 0x0A]) (snd b))"

definition renderChanges :: "(long \<times> string list) list \<Rightarrow> string" where
  "renderChanges bs = concat (map renderBlock bs)"

definition storeBlock ::
  "rectangleReader \<Rightarrow> Nav2DChange \<Rightarrow> changeMap \<Rightarrow> long \<times> string list \<Rightarrow> changeMap" where
  "storeBlock readRectangle blank changes b =
     changes(fst b \<mapsto> List.map_filter (parseChangeLine readRectangle blank) (snd b))"

definition wellFormedBlock :: "long \<times> string list \<Rightarrow> bool" where
  "wellFormedBlock b \<longleftrightarrow>
     length (snd b) < 2 ^ 31 \<and> list_all (\<lambda>l. CHR 0x0A \<notin> set l) (snd b)"

lemma getline_line:
  "CHR 0x0A \<notin> set l \<Longrightarrow>
   getline \<lparr>buf = l @ CHR 0x0A # rest, failbit = False, eofbit = False\<rparr> =
     (Some l, \<lparr>buf = rest, failbit = False, eofbit = False\<rparr>)"
  by (simp add: getline_def getline_delim_def takeWhile_append1 dropWhile_append2
        takeWhile_append dropWhile_append)

lemma changeLoop_lines:
  "list_all (\<lambda>l. CHR 0x0A \<notin> set l) ls \<Longrightarrow> changes t = Some cs \<Longrightarrow>
   changeLoop rr blank t (length ls)
     (\<lparr>buf = concat (map (\<lambda>l. l @ [CHR 0x0A]) ls) @ rest, failbit = False, eofbit = False\<rparr>,
      line, changes) =
   (\<lparr>buf = rest, failbit = False, eofbit = False\<rparr>, last (line # ls),
    changes(t \<mapsto> cs @ List.map_filter (parseChangeLine rr blank) ls))"
proof (induction ls arbitrary: line changes cs)
  case Nil
  then show ?case by (simp add: map_filter_simps fun_upd_idem)
next
  case (Cons l ls)
  from Cons.prems have nl: "CHR 0x0A \<notin> set l" and rest: "list_all (\<lambda>l. CHR 0x0A \<notin> set l) ls"
    by simp_all
  let ?s = "\<lparr>buf = concat (map (\<lambda>l. l @ [CHR 0x0A]) (l # ls)) @ rest,
              failbit = False, eofbit = False\<rparr>"
  let ?s' = "\<lparr>buf = concat (map (\<lambda>l. l @ [CHR 0x0A]) ls) @ rest,
              failbit = False, eofbit = False\<rparr>"
  show ?case
  proof (cases "parseChangeLine rr blank l")
    case None
    have "changeLoop rr blank t (length (l # ls)) (?s, line, changes) =
          changeLoop rr blank t (length ls) (?s', l, changes)"
      by (simp add: getline_line [OF nl] None)
    also have "\<dots> = (\<lparr>buf = rest, failbit = False, eofbit = False\<rparr>, last (l # ls),
        changes(t \<mapsto> cs @ List.map_filter (parseChangeLine rr blank) ls))"
      by (rule Cons.IH [where changes = changes and cs = cs, OF rest Cons.prems(2)])
    also have "changes(t \<mapsto> cs @ List.map_filter (parseChangeLine rr blank) ls) =
               changes(t \<mapsto> cs @ List.map_filter (parseChangeLine rr blank) (l # ls))"
      by (simp add: map_filter_simps None)
    finally show ?thesis by simp
  next
    case (Some c)
    let ?changes' = "push_back_change t c changes"
    have p: "?changes' t = Some (cs @ [c])"
      using Cons.prems(2) by (simp add: push_back_change_def)
    have "changeLoop rr blank t (length (l # ls)) (?s, line, changes) =
          changeLoop rr blank t (length ls) (?s', l, ?changes')"
      by (simp add: getline_line [OF nl] Some)
    also have "\<dots> = (\<lparr>buf = rest, failbit = False, eofbit = False\<rparr>, last (l # ls),
        ?changes'(t \<mapsto> (cs @ [c]) @ List.map_filter (parseChangeLine rr blank) ls))"
      by (rule Cons.IH [where changes = "push_back_change t c changes" and cs = "cs @ [c]",
            OF rest p])
    also have "?changes'(t \<mapsto> (cs @ [c]) @ List.map_filter (parseChangeLine rr blank) ls) =
               changes(t \<mapsto> cs @ List.map_filter (parseChangeLine rr blank) (l # ls))"
      by (simp add: push_back_change_def map_filter_simps Some)
    finally show ?thesis by simp
  qed
qed

lemma show_long_chars: "c \<in> set (show_long v) \<Longrightarrow> c = CHR ''-'' \<or> isdigit c"
  by (auto simp: show_long_def dest: show_nat_isdigit split: if_splits)

lemma show_long_no_newline: "CHR 0x0A \<notin> set (show_long v)"
  by (auto dest!: show_long_chars simp: isdigit_def digits_def)

lemma show_long_no_space: "c \<in> set (show_long v) \<Longrightarrow> \<not> isspace c"
  by (auto dest!: show_long_chars simp: isdigit_def digits_def isspace_def)

lemma header_parse:
  "parseHeader (''t '' @ show_long t @ '' n '' @ show_long n) = (Some t, Some n)"
proof -
  have 1: "read_string (istringstream (''t '' @ show_long t @ '' n '' @ show_long n)) =
             (Some ''t'', \<lparr>buf = CHR '' '' # show_long t @ '' n '' @ show_long n,
                           failbit = False, eofbit = False\<rparr>)"
    by (simp add: read_string_def sentry_def istringstream_def isspace_def)
  have 2: "read_long \<lparr>buf = CHR '' '' # show_long t @ '' n '' @ show_long n,
                           failbit = False, eofbit = False\<rparr> =
             (Some t, \<lparr>buf = '' n '' @ show_long n, failbit = False, eofbit = False\<rparr>)"
    using read_long_space_show_long [of "'' n '' @ show_long n" t]
    by (simp add: stops_number_def isdigit_def digits_def)
  have 3: "read_string \<lparr>buf = '' n '' @ show_long n, failbit = False, eofbit = False\<rparr> =
             (Some ''n'', \<lparr>buf = CHR '' '' # show_long n, failbit = False, eofbit = False\<rparr>)"
    by (simp add: read_string_def sentry_def isspace_def)
  have 4: "read_long \<lparr>buf = CHR '' '' # show_long n, failbit = False, eofbit = False\<rparr> =
             (Some n, \<lparr>buf = [], failbit = False, eofbit = True\<rparr>)"
    using read_long_space_show_long [of "[]" n] by (simp add: stops_number_def)
  show ?thesis unfolding parseHeader_def Let_def by (simp only: 1 2 3 4 prod.case)
qed

lemma sint_of_nat_small: "n < 2 ^ 31 \<Longrightarrow> sint (of_nat n :: long) = int n"
proof -
  assume "n < 2 ^ 31"
  then have "int n < 2 ^ 63" by (simp add: less_trans [where y = "2 ^ 31"])
  then show ?thesis
    using sint_sbintrunc' [where 'a = 64, of "int n"]
    by (simp add: signed_take_bit_int_eq_self)
qed


definition keepRectangle :: rectangleReader where
  "keepRectangle s r = (r, s)"

definition blankChange :: Nav2DChange where
  "blankChange = \<lparr>operation = [], changeType = EMPTY, changeId = 0,
       area = \<lparr>lowerLeft = (Finite 0, Finite 0), upperRight = (Finite 0, Finite 0)\<rparr>\<rparr>"

lemmas stream_eval = loadChanges_def loadLoop.simps parseHeader_def getline_def getline_delim_def
  istringstream_def read_string_def read_long_def scan_long_def sentry_def isspace_def isdigit_def
  digits_def parse_nat_def digit_val_def LONG_MIN_def LONG_MAX_def Let_def parseChangeLine_def
  push_back_change_def parseAreaType_def keepRectangle_def blankChange_def

lemma loadLoop_end:
  "loadLoop rr blank \<lparr>buf = [], failbit = False, eofbit = False\<rparr> line changes ts =
     Inr (ts, changes)"
  by (subst loadLoop.simps) (simp add: getline_def getline_delim_def)

lemma loadLoop_render:
  "list_all wellFormedBlock bs \<Longrightarrow>
   loadLoop rr blank \<lparr>buf = renderChanges bs, failbit = False, eofbit = False\<rparr>
     line changes ts =
   Inr (ts @ map fst bs, foldl (storeBlock rr blank) changes bs)"
proof (induction bs arbitrary: line changes ts)
  case Nil
  then show ?case by (simp add: renderChanges_def loadLoop_end)
next
  case (Cons b bs)
  obtain t ls where b: "b = (t, ls)" by (cases b)
  from Cons.prems have wfb: "wellFormedBlock b" and wf: "list_all wellFormedBlock bs"
    by simp_all
  from wfb b have len: "length ls < 2 ^ 31"
    and nls: "list_all (\<lambda>l. CHR 0x0A \<notin> set l) ls"
    by (simp_all add: wellFormedBlock_def)
  let ?n = "of_nat (length ls) :: long"
  let ?h = "''t '' @ show_long t @ '' n '' @ show_long ?n"
  let ?body = "concat (map (\<lambda>l. l @ [CHR 0x0A]) ls) @ renderChanges bs"
  have r: "renderChanges (b # bs) = ?h @ CHR 0x0A # ?body"
    by (simp add: renderChanges_def renderBlock_def b)
  have nl: "CHR 0x0A \<notin> set ?h"
    by (simp add: show_long_no_newline)
  have g: "getline \<lparr>buf = renderChanges (b # bs), failbit = False, eofbit = False\<rparr> =
             (Some ?h, \<lparr>buf = ?body, failbit = False, eofbit = False\<rparr>)"
    unfolding r by (rule getline_line [OF nl])
  have n: "sint ?n = int (length ls)"
    by (rule sint_of_nat_small [OF len])
  have small: "\<not> 2147483647 < sint ?n"
    using len by (simp add: n)
  have cl: "changeLoop rr blank t (nat (sint ?n))
              (\<lparr>buf = ?body, failbit = False, eofbit = False\<rparr>, ?h, changes(t \<mapsto> [])) =
            (\<lparr>buf = renderChanges bs, failbit = False, eofbit = False\<rparr>, last (?h # ls),
             storeBlock rr blank changes b)"
    using changeLoop_lines [where changes = "changes(t \<mapsto> [])" and cs = "[]" and t = t
        and rr = rr and blank = blank and line = ?h and rest = "renderChanges bs", OF nls]
    by (simp add: n storeBlock_def b)
  have "loadLoop rr blank \<lparr>buf = renderChanges (b # bs), failbit = False, eofbit = False\<rparr>
          line changes ts =
        loadLoop rr blank \<lparr>buf = renderChanges bs, failbit = False, eofbit = False\<rparr>
          (last (?h # ls)) (storeBlock rr blank changes b) (ts @ [t])"
    apply (subst loadLoop.simps)
    apply (simp only: g prod.case option.case Let_def istream.select_convs if_False
             header_parse small cl)
    done
  also have "\<dots> = Inr ((ts @ [t]) @ map fst bs,
                        foldl (storeBlock rr blank) (storeBlock rr blank changes b) bs)"
    by (rule Cons.IH [OF wf])
  finally show ?case by (simp add: b)
qed

lemma parseChangeLine_ADD:
  "parseChangeLine rr blank l = Some c \<Longrightarrow> operation c = ''ADD''"
  by (auto simp: parseChangeLine_def Let_def split: prod.splits if_splits option.splits)

lemma parseChangeLine_skip:
  "fst (read_string (istringstream l)) \<noteq> Some ''ADD'' \<Longrightarrow> parseChangeLine rr blank l = None"
  by (auto simp: parseChangeLine_def Let_def split: prod.splits if_splits option.splits)

text \<open>Every change stored, for any time, has the operation \<open>ADD\<close>.\<close>

definition onlyADD :: "changeMap \<Rightarrow> bool" where
  "onlyADD changes \<longleftrightarrow>
     (\<forall>t cs. changes t = Some cs \<longrightarrow> list_all (\<lambda>c. operation c = ''ADD'') cs)"

lemma onlyADD_push:
  "onlyADD changes \<Longrightarrow> operation c = ''ADD'' \<Longrightarrow> onlyADD (push_back_change t c changes)"
  by (auto simp: onlyADD_def push_back_change_def split: option.splits)

lemma onlyADD_reset: "onlyADD changes \<Longrightarrow> onlyADD (changes(t \<mapsto> []))"
  by (auto simp: onlyADD_def)

lemma changeLoop_onlyADD:
  "onlyADD changes \<Longrightarrow> onlyADD (snd (snd (changeLoop rr blank t n (ifs, line, changes))))"
proof (induction n arbitrary: ifs line changes)
  case 0
  then show ?case by simp
next
  case (Suc n)
  obtain got ifs' where g: "getline ifs = (got, ifs')" by (cases "getline ifs")
  let ?line = "case got of None \<Rightarrow> line | Some l \<Rightarrow> l"
  show ?case
  proof (cases "parseChangeLine rr blank ?line")
    case None
    with Suc show ?thesis by (simp add: g)
  next
    case (Some c)
    then have "operation c = ''ADD''" by (rule parseChangeLine_ADD)
    with Suc.prems have "onlyADD (push_back_change t c changes)" by (rule onlyADD_push)
    from Suc.IH [OF this] Some show ?thesis by (simp add: g)
  qed
qed

lemma loadLoop_onlyADD:
  "onlyADD changes \<Longrightarrow> loadLoop rr blank ifs line changes ts = Inr (ts', changes') \<Longrightarrow>
   onlyADD changes'"
proof (induction rr blank ifs line changes ts rule: loadLoop.induct)
  case (1 rr blank ifs line changes ts)
  obtain got ifs1 where g: "getline ifs = (got, ifs1)" by (cases "getline ifs")
  let ?line1 = "case got of None \<Rightarrow> line | Some l \<Rightarrow> l"
  show ?case
  proof (cases "failbit ifs1")
    case True
    with "1.prems" g show ?thesis
      by (subst (asm) loadLoop.simps) simp
  next
    case False
    from "1.prems"(2) g False obtain t n where
      h: "parseHeader ?line1 = (Some t, Some n)" and small: "\<not> 2147483647 < sint n"
      by (subst (asm) loadLoop.simps) (auto split: option.splits if_splits prod.splits)
    obtain ifs2 line2 changes2 where
      cl: "changeLoop rr blank t (nat (sint n)) (ifs1, ?line1, changes(t \<mapsto> [])) =
             (ifs2, line2, changes2)"
      by (cases "changeLoop rr blank t (nat (sint n)) (ifs1, ?line1, changes(t \<mapsto> []))")
    have o2: "onlyADD changes2"
      using changeLoop_onlyADD [OF onlyADD_reset [OF "1.prems"(1)], of rr blank t "nat (sint n)"
          ifs1 ?line1 t]
      by (simp add: cl)
    from "1.prems"(2) have
      r: "loadLoop rr blank ifs2 line2 changes2 (ts @ [t]) = Inr (ts', changes')"
      by (subst (asm) loadLoop.simps) (simp add: g False h small cl)
    show ?thesis
      by (rule "1.IH" [OF refl g [symmetric] refl False h [symmetric] refl refl small refl
            cl [symmetric] refl o2 r])
  qed
qed

text \<open>
  Claim C8, as the code has it. For a well-formed change file \<open>loadChanges\<close> returns the
  times of the blocks in the order of the file (nothing sorts or checks them) and stores for
  each time the parsed lines of its block, without the skipped ones and with those after
  a skipped line; whatever the file, every change stored has the operation \<open>ADD\<close>; and
  a line whose first word is not \<open>ADD\<close> is skipped.
\<close>

theorem loadChanges_file_order:
  "(list_all wellFormedBlock bs \<longrightarrow>
      loadChanges rr blank (Some (renderChanges bs)) =
        Inr (map fst bs, foldl (storeBlock rr blank) Map.empty bs))
   \<and> (\<forall>file ts changes. loadChanges rr blank file = Inr (ts, changes) \<longrightarrow> onlyADD changes)
   \<and> (\<forall>l c. parseChangeLine rr blank l = Some c \<longrightarrow> operation c = ''ADD'')
   \<and> (\<forall>l. fst (read_string (istringstream l)) \<noteq> Some ''ADD'' \<longrightarrow>
          parseChangeLine rr blank l = None)"
proof (intro conjI)
  show "list_all wellFormedBlock bs \<longrightarrow>
      loadChanges rr blank (Some (renderChanges bs)) =
        Inr (map fst bs, foldl (storeBlock rr blank) Map.empty bs)"
    using loadLoop_render [of bs rr blank "[]" Map.empty "[]"]
    by (simp add: loadChanges_def istringstream_def)
  have "onlyADD Map.empty" by (simp add: onlyADD_def)
  then show "\<forall>file ts changes. loadChanges rr blank file = Inr (ts, changes) \<longrightarrow> onlyADD changes"
    unfolding loadChanges_def by (blast intro: loadLoop_onlyADD)
  show "\<forall>l c. parseChangeLine rr blank l = Some c \<longrightarrow> operation c = ''ADD''"
    by (simp add: parseChangeLine_ADD)
  show "\<forall>l. fst (read_string (istringstream l)) \<noteq> Some ''ADD'' \<longrightarrow>
          parseChangeLine rr blank l = None"
    by (simp add: parseChangeLine_skip)
qed

definition demoBlocks :: "(long \<times> string list) list" where
  "demoBlocks =
     [(7, [''ADD Obstacle 1 0 0 1 1'', ''DEL Obstacle 2 0 0 1 1'', ''ADD Goal 3 0 0 1 1''])]"

theorem loadChanges_file_order_witness:
  "list_all wellFormedBlock demoBlocks
   \<and> map_sum id (\<lambda>r. (fst r, map_option (map changeId) (snd r 7)))
        (loadChanges keepRectangle blankChange (Some (renderChanges demoBlocks))) =
       Inr ([7], Some [1, 3])
   \<and> fst (read_string (istringstream ''DEL Obstacle 2 0 0 1 1'')) = Some ''DEL''
   \<and> parseChangeLine keepRectangle blankChange ''DEL Obstacle 2 0 0 1 1'' = None"
proof -
  have wf: "list_all wellFormedBlock demoBlocks"
    by (simp add: demoBlocks_def wellFormedBlock_def)
  have rd: "fst (read_string (istringstream ''DEL Obstacle 2 0 0 1 1'')) = Some ''DEL''"
    by (simp add: read_string_def sentry_def istringstream_def isspace_def)
  note T = loadChanges_file_order [of demoBlocks keepRectangle blankChange]
  from T wf have e: "loadChanges keepRectangle blankChange (Some (renderChanges demoBlocks)) =
        Inr (map fst demoBlocks, foldl (storeBlock keepRectangle blankChange) Map.empty demoBlocks)"
    by blast
  from T rd have sk: "parseChangeLine keepRectangle blankChange ''DEL Obstacle 2 0 0 1 1'' = None"
    by simp
  have p1: "parseChangeLine keepRectangle blankChange ''ADD Obstacle 1 0 0 1 1'' =
              Some (blankChange\<lparr>operation := ''ADD'', changeType := OBSTACLE, changeId := 1\<rparr>)"
    by (simp add: stream_eval)
  have p3: "parseChangeLine keepRectangle blankChange ''ADD Goal 3 0 0 1 1'' =
              Some (blankChange\<lparr>operation := ''ADD'', changeType := GOAL, changeId := 3\<rparr>)"
    by (simp add: stream_eval)
  have v: "map_option (map changeId)
             (foldl (storeBlock keepRectangle blankChange) Map.empty demoBlocks 7) = Some [1, 3]"
    by (simp add: demoBlocks_def storeBlock_def map_filter_simps p1 sk p3)
  from wf rd sk show ?thesis
    by (simp add: e v) (simp add: demoBlocks_def)
qed

text \<open>
  The claim as stated fails on a file whose times decrease: the returned list is
  \<open>[5, 3]\<close>, which is not strictly increasing.
\<close>

theorem loadChanges_unsorted_counterexample:
  "map_sum id fst (loadChanges keepRectangle blankChange
           (Some ''t 5 n 0\<newline>t 3 n 0\<newline>'')) = Inr [5, 3]
   \<and> \<not> sorted_wrt (\<lambda>a b. a <s b) [5, 3 :: long]"
  by (simp add: stream_eval word_sless_alt)

section \<open>Saving and loading a discrete observation mapping\<close>

text \<open>
  The serializer's \<open>saveObservation\<close> and \<open>loadObservation\<close> are virtual and defined
  elsewhere, and so is \<open>BeliefTree::setNode\<close>, which \<open>loadObservationMapping\<close> calls
  through \<open>solver_->getPolicy()\<close>: the three are parameters.
\<close>

record ('o, 'am, 'p) serializer =
  saveObservation :: "'o \<Rightarrow> string"
  loadObservation :: "istream \<Rightarrow> 'o option \<times> istream"
  setNode :: "long \<Rightarrow> addr \<Rightarrow> ('am, 'p) store \<Rightarrow> ('am, 'p) store"

text \<open>
  \<open>saveObservationMapping\<close>: one line per entry, built from the observation, the id of
  the child node (read through the entry's pointer) and the visit count; the lines are
  sorted as strings and written between the header and the closing brace.
\<close>

definition entryText :: "string \<Rightarrow> long \<Rightarrow> long \<Rightarrow> string" where
  "entryText obsText nodeId visits =
     [CHR 0x09] @ obsText @ '' -> NODE '' @ show_long nodeId @ ''; '' @ show_long visits
       @ '' visits''"

definition entryLine ::
  "('o, 'am, 'p) serializer \<Rightarrow> ('am, 'p) store \<Rightarrow> 'o \<times> DiscreteObservationMapEntry \<Rightarrow>
     error + string" where
  "entryLine S st entry =
     (case childNode (snd entry) of
        None \<Rightarrow> Inl NullPointer
      | Some a \<Rightarrow>
          (case nodes st a of
             None \<Rightarrow> Inl NullPointer
           | Some node \<Rightarrow>
               Inr (entryText (saveObservation S (fst entry)) (bn_id node) (visitCount (snd entry))
                      @ [CHR 0x0A])))"

fun entryLines ::
  "('o, 'am, 'p) serializer \<Rightarrow> ('am, 'p) store \<Rightarrow> 'o ChildMap \<Rightarrow> error + string list" where
  "entryLines S st [] = Inr []"
| "entryLines S st (entry # entries) =
     (case entryLine S st entry of
        Inl e \<Rightarrow> Inl e
      | Inr line \<Rightarrow>
          (case entryLines S st entries of Inl e \<Rightarrow> Inl e | Inr lines \<Rightarrow> Inr (line # lines)))"

definition headerText :: "long \<Rightarrow> long \<Rightarrow> string" where
  "headerText nChildren totalVisits =
     show_long nChildren @ '' observation children; '' @ show_long totalVisits @ '' visits {''"

definition saveObservationMapping ::
  "('o, 'am, 'p) serializer \<Rightarrow> 'o DiscreteObservationMap \<Rightarrow> ('am, 'p) store \<Rightarrow> error + string" where
  "saveObservationMapping S m st =
     (case entryLines S st (childMap m) of
        Inl e \<Rightarrow> Inl e
      | Inr lines \<Rightarrow>
          Inr (headerText (of_nat (getNChildren m)) (getTotalVisitCount m) @ [CHR 0x0A]
               @ concat (sort lines) @ ''}'' @ [CHR 0x0A]))"

text \<open>
  \<open>loadObservationMapping\<close>: the header gives the number of children and the total; then
  for each child a line is read and taken apart, a belief node is created for the
  observation, registered under the saved id, and the entry's visit count is set. The
  scratch string \<open>tmpStr\<close> and the line keep their contents when an extraction fails.
\<close>

definition parseEntry ::
  "('o, 'am, 'p) serializer \<Rightarrow> string \<Rightarrow> string \<Rightarrow> ('o option \<times> long option \<times> long option) \<times> string" where
  "parseEntry S tmpStr line =
     (let entryStream = istringstream line;
          (obs, es1) = loadObservation S entryStream;
          (w1, es2) = read_string es1;
          tmp1 = (case w1 of None \<Rightarrow> tmpStr | Some w \<Rightarrow> w);
          (w2, es3) = read_string es2;
          tmp2 = (case w2 of None \<Rightarrow> tmp1 | Some w \<Rightarrow> w);
          (w3, es4) = getline_delim (CHR '';'') es3;
          tmp3 = (case w3 of None \<Rightarrow> tmp2 | Some w \<Rightarrow> w);
          (childId, es5) = read_long (istringstream tmp3);
          (visits, es6) = read_long es4
      in ((obs, childId, visits), tmp3))"

type_synonym ('o, 'am, 'p) loadState =
  "istream \<times> string \<times> string \<times> 'o DiscreteObservationMap \<times> ('am, 'p) store"

fun loadEntries ::
  "('o, 'am, 'p) serializer \<Rightarrow> ('am, 'p) collaborators \<Rightarrow> nat \<Rightarrow> ('o, 'am, 'p) loadState \<Rightarrow>
     error + ('o, 'am, 'p) loadState" where
  "loadEntries S C 0 x = Inr x"
| "loadEntries S C (Suc n) (is, line, tmpStr, m, st) =
     (let (got, is') = getline is;
          line' = (case got of None \<Rightarrow> line | Some l \<Rightarrow> l);
          ((obs, childId, visits), tmpStr') = parseEntry S tmpStr line'
      in case obs of
           None \<Rightarrow> Inl NullPointer
         | Some ob \<Rightarrow>
             (let (node, m1, st1) = createBelief C ob (m, st)
              in case childId of
                   None \<Rightarrow> Inl UninitializedRead
                 | Some cid \<Rightarrow>
                     (case nodes st1 node of
                        None \<Rightarrow> Inl NullPointer
                      | Some _ \<Rightarrow>
                          (case visits of
                             None \<Rightarrow> Inl UninitializedRead
                           | Some vc \<Rightarrow>
                               loadEntries S C n
                                 (is', line', tmpStr',
                                  m1\<lparr>childMap :=
                                       umap_modify ob (\<lambda>e. e\<lparr>visitCount := vc\<rparr>) (childMap m1)\<rparr>,
                                  setNode S cid node st1)))))"

definition parseTotals :: "string \<Rightarrow> long option \<times> long option \<times> string" where
  "parseTotals line =
     (let totalsStream = istringstream line;
          (nChildren, ts1) = read_long totalsStream;
          (w1, ts2) = read_string ts1;
          tmp1 = (case w1 of None \<Rightarrow> [] | Some w \<Rightarrow> w);
          (w2, ts3) = read_string ts2;
          tmp2 = (case w2 of None \<Rightarrow> tmp1 | Some w \<Rightarrow> w);
          (totalVisits, ts4) = read_long ts3
      in (nChildren, totalVisits, tmp2))"

definition loadObservationMapping ::
  "('o, 'am, 'p) serializer \<Rightarrow> ('am, 'p) collaborators \<Rightarrow> istream \<Rightarrow> ('am, 'p) store \<Rightarrow>
     error + ('o DiscreteObservationMap \<times> ('am, 'p) store \<times> istream)" where
  "loadObservationMapping S C is st =
     (let (got, is1) = getline is;
          line = (case got of None \<Rightarrow> [] | Some l \<Rightarrow> l);
          (nChildren, totalVisits, tmpStr) = parseTotals line;
          m0 = (case totalVisits of
                  None \<Rightarrow> newDiscreteObservationMap
                | Some v \<Rightarrow> newDiscreteObservationMap\<lparr>totalVisitCount := v\<rparr>)
      in case nChildren of
           None \<Rightarrow> Inl UninitializedRead
         | Some n \<Rightarrow>
             if 2147483647 < sint n then Inl CounterOverflow
             else (case loadEntries S C (nat (sint n)) (is1, line, tmpStr, m0, st) of
                     Inl e \<Rightarrow> Inl e
                   | Inr (is2, line2, tmpStr2, m, st') \<Rightarrow> Inr (m, st', snd (getline is2))))"

text \<open>What a mapping holds for an observation: the visit count and the id of the child.\<close>

definition childId :: "'o DiscreteObservationMap \<Rightarrow> ('am, 'p) store \<Rightarrow> 'o \<Rightarrow> long option" where
  "childId m st obs =
     (case getBelief m obs of None \<Rightarrow> None | Some a \<Rightarrow> map_option bn_id (nodes st a))"


subsection \<open>The round trip\<close>

text \<open>
  What is assumed of the parameters: \<open>loadObservation\<close> reads back what
  \<open>saveObservation\<close> wrote at the start of an entry line and stops in front of the arrow,
  the saved observation has no line break, and \<open>setNode\<close> gives the node the id.
\<close>

definition observationRoundTrip :: "('o, 'am, 'p) serializer \<Rightarrow> bool" where
  "observationRoundTrip S \<longleftrightarrow>
     (\<forall>obs r. loadObservation S
                \<lparr>buf = CHR 0x09 # saveObservation S obs @ '' -> NODE '' @ r,
                 failbit = False, eofbit = False\<rparr> =
              (Some obs, \<lparr>buf = '' -> NODE '' @ r, failbit = False, eofbit = False\<rparr>))
     \<and> (\<forall>obs. CHR 0x0A \<notin> set (saveObservation S obs))"

definition setNodeAssignsId :: "('o, 'am, 'p) serializer \<Rightarrow> bool" where
  "setNodeAssignsId S \<longleftrightarrow>
     (\<forall>i a st node. nodes st a = Some node \<longrightarrow>
        setNode S i a st = st\<lparr>nodes := (nodes st)(a \<mapsto> node\<lparr>bn_id := i\<rparr>)\<rparr>)"

definition allChildrenLive :: "'o DiscreteObservationMap \<Rightarrow> ('am, 'p) store \<Rightarrow> bool" where
  "allChildrenLive m st \<longleftrightarrow>
     list_all (\<lambda>entry. case childNode (snd entry) of
                          None \<Rightarrow> False
                        | Some a \<Rightarrow> nodes st a \<noteq> None) (childMap m)"

definition entryTriple ::
  "('am, 'p) store \<Rightarrow> 'o \<times> DiscreteObservationMapEntry \<Rightarrow> 'o \<times> long \<times> long" where
  "entryTriple st entry =
     (fst entry,
      (case childNode (snd entry) of
         None \<Rightarrow> 0
       | Some a \<Rightarrow> (case nodes st a of None \<Rightarrow> 0 | Some node \<Rightarrow> bn_id node)),
      visitCount (snd entry))"

definition tripleLine :: "('o, 'am, 'p) serializer \<Rightarrow> 'o \<times> long \<times> long \<Rightarrow> string" where
  "tripleLine S t = entryText (saveObservation S (fst t)) (fst (snd t)) (snd (snd t))"

lemma semicolon_not_in_show_long: "CHR '';'' \<notin> set (show_long v)"
  by (auto dest!: show_long_chars simp: isdigit_def digits_def)

lemma read_long_space_show_long_end:
  "read_long \<lparr>buf = CHR '' '' # show_long v, failbit = False, eofbit = False\<rparr> =
     (Some v, \<lparr>buf = [], failbit = False, eofbit = True\<rparr>)"
  using read_long_space_show_long [of "[]" v] by (simp add: stops_number_def)

lemma parseEntry_entryText:
  assumes "observationRoundTrip S"
  shows "parseEntry S tmpStr (entryText (saveObservation S obs) i v) =
           ((Some obs, Some i, Some v), CHR '' '' # show_long i)"
proof -
  let ?r = "show_long i @ ''; '' @ show_long v @ '' visits''"
  have t: "entryText (saveObservation S obs) i v =
             CHR 0x09 # saveObservation S obs @ '' -> NODE '' @ ?r"
    by (simp add: entryText_def)
  have 0: "loadObservation S (istringstream (CHR 0x09 # saveObservation S obs @ '' -> NODE '' @ ?r)) =
             (Some obs, \<lparr>buf = '' -> NODE '' @ ?r, failbit = False, eofbit = False\<rparr>)"
    using assms unfolding observationRoundTrip_def istringstream_def by blast
  have 1: "read_string \<lparr>buf = '' -> NODE '' @ ?r, failbit = False, eofbit = False\<rparr> =
             (Some ''->'', \<lparr>buf = '' NODE '' @ ?r, failbit = False, eofbit = False\<rparr>)"
    by (simp add: read_string_def sentry_def isspace_def)
  have 2: "read_string \<lparr>buf = '' NODE '' @ ?r, failbit = False, eofbit = False\<rparr> =
             (Some ''NODE'', \<lparr>buf = CHR '' '' # ?r, failbit = False, eofbit = False\<rparr>)"
    by (simp add: read_string_def sentry_def isspace_def)
  have 3: "getline_delim (CHR '';'') \<lparr>buf = CHR '' '' # ?r, failbit = False, eofbit = False\<rparr> =
             (Some (CHR '' '' # show_long i),
              \<lparr>buf = CHR '' '' # show_long v @ '' visits'', failbit = False, eofbit = False\<rparr>)"
    by (simp add: getline_delim_def takeWhile_append dropWhile_append semicolon_not_in_show_long)
  have 4: "read_long (istringstream (CHR '' '' # show_long i)) =
             (Some i, \<lparr>buf = [], failbit = False, eofbit = True\<rparr>)"
    unfolding istringstream_def by (rule read_long_space_show_long_end)
  have 5: "read_long \<lparr>buf = CHR '' '' # show_long v @ '' visits'', failbit = False, eofbit = False\<rparr> =
             (Some v, \<lparr>buf = '' visits'', failbit = False, eofbit = False\<rparr>)"
    using read_long_space_show_long [of "'' visits''" v]
    by (simp add: stops_number_def isdigit_def digits_def)
  show ?thesis
    unfolding parseEntry_def Let_def t
    by (simp only: 0 1 2 3 4 5 prod.case option.case)
qed

lemma parseTotals_headerText:
  "parseTotals (headerText n t) = (Some n, Some t, ''children;'')"
proof -
  have 0: "read_long (istringstream (headerText n t)) =
             (Some n, \<lparr>buf = '' observation children; '' @ show_long t @ '' visits {'',
                       failbit = False, eofbit = False\<rparr>)"
    using read_long_show_long
      [of "'' observation children; '' @ show_long t @ '' visits {''" n]
    by (simp add: headerText_def istringstream_def stops_number_def isdigit_def digits_def)
  have 1: "read_string \<lparr>buf = '' observation children; '' @ show_long t @ '' visits {'',
                       failbit = False, eofbit = False\<rparr> =
             (Some ''observation'', \<lparr>buf = '' children; '' @ show_long t @ '' visits {'',
                       failbit = False, eofbit = False\<rparr>)"
    by (simp add: read_string_def sentry_def isspace_def)
  have 2: "read_string \<lparr>buf = '' children; '' @ show_long t @ '' visits {'',
                       failbit = False, eofbit = False\<rparr> =
             (Some ''children;'', \<lparr>buf = CHR '' '' # show_long t @ '' visits {'',
                       failbit = False, eofbit = False\<rparr>)"
    by (simp add: read_string_def sentry_def isspace_def)
  have 3: "read_long \<lparr>buf = CHR '' '' # show_long t @ '' visits {'',
                       failbit = False, eofbit = False\<rparr> =
             (Some t, \<lparr>buf = '' visits {'', failbit = False, eofbit = False\<rparr>)"
    using read_long_space_show_long [of "'' visits {''" t]
    by (simp add: stops_number_def isdigit_def digits_def)
  show ?thesis
    unfolding parseTotals_def Let_def
    by (simp only: 0 1 2 3 prod.case option.case)
qed

lemma entryLines_live:
  "list_all (\<lambda>entry. case childNode (snd entry) of
                          None \<Rightarrow> False
                        | Some a \<Rightarrow> nodes st a \<noteq> None) es \<Longrightarrow>
   entryLines S st es = Inr (map (\<lambda>entry. tripleLine S (entryTriple st entry) @ [CHR 0x0A]) es)"
  by (induction es)
     (auto simp: entryLine_def tripleLine_def entryTriple_def split: option.splits)

lemma map_insort_key: "map f (insort_key f x xs) = insort (f x) (map f xs)"
  by (induction xs) auto

lemma sort_map_key: "sort (map f xs) = map f (sort_key f xs)"
  by (induction xs) (simp_all add: map_insort_key)


definition loadedWell :: "'o DiscreteObservationMap \<Rightarrow> ('am, 'p) store \<Rightarrow> bool" where
  "loadedWell m st \<longleftrightarrow>
     list_all (\<lambda>entry. case childNode (snd entry) of
                          None \<Rightarrow> False
                        | Some a \<Rightarrow> a < nextAddr st \<and> nodes st a \<noteq> None) (childMap m)"

lemma umap_modify_last:
  "map_of m k = None \<Longrightarrow> umap_modify k f (m @ [(k, e)]) = m @ [(k, f e)]"
  by (induction m) (auto split: if_splits)

lemma entryTriple_older:
  assumes "case childNode (snd entry) of None \<Rightarrow> False
           | Some a \<Rightarrow> a < nextAddr st \<and> nodes st a \<noteq> None"
  shows "entryTriple (st\<lparr>nodes := (nodes st)(nextAddr st \<mapsto> node), nextAddr := n, pool := q\<rparr>) entry
           = entryTriple st entry"
  using assms by (auto simp: entryTriple_def split: option.splits)

lemma loadEntries_step:
  assumes rt: "observationRoundTrip S" and sn: "setNodeAssignsId S"
    and wf: "loadedWell m st" and fresh: "map_of (childMap m) obs = None"
  shows "\<exists>m' st'.
           loadEntries S C (Suc n)
             (\<lparr>buf = tripleLine S (obs, i, v) @ CHR 0x0A # rest, failbit = False, eofbit = False\<rparr>,
              line, tmpStr, m, st) =
           loadEntries S C n
             (\<lparr>buf = rest, failbit = False, eofbit = False\<rparr>, tripleLine S (obs, i, v),
              CHR '' '' # show_long i, m', st')
           \<and> loadedWell m' st'
           \<and> totalVisitCount m' = totalVisitCount m
           \<and> map fst (childMap m') = map fst (childMap m) @ [obs]
           \<and> map (entryTriple st') (childMap m') =
               map (entryTriple st) (childMap m) @ [(obs, i, v)]"
proof -
  let ?a = "nextAddr st"
  let ?node = "newBeliefNode C (fst (createActionMapping C (pool st)))"
  let ?st1 = "st\<lparr>nodes := (nodes st)(?a \<mapsto> ?node), nextAddr := Suc ?a,
                 pool := snd (createActionMapping C (pool st))\<rparr>"
  let ?st2 = "st\<lparr>nodes := (nodes st)(?a \<mapsto> ?node\<lparr>bn_id := i\<rparr>), nextAddr := Suc ?a,
                 pool := snd (createActionMapping C (pool st))\<rparr>"
  let ?m1 = "m\<lparr>childMap := childMap m @ [(obs, \<lparr>childNode = Some ?a, visitCount = 0\<rparr>)]\<rparr>"
  let ?m2 = "m\<lparr>childMap := childMap m @ [(obs, \<lparr>childNode = Some ?a, visitCount = v\<rparr>)]\<rparr>"
  have nl: "CHR 0x0A \<notin> set (tripleLine S (obs, i, v))"
    using rt
    by (auto simp: observationRoundTrip_def tripleLine_def entryText_def show_long_no_newline)
  have g: "getline \<lparr>buf = tripleLine S (obs, i, v) @ CHR 0x0A # rest,
                    failbit = False, eofbit = False\<rparr> =
             (Some (tripleLine S (obs, i, v)), \<lparr>buf = rest, failbit = False, eofbit = False\<rparr>)"
    by (rule getline_line [OF nl])
  have p: "parseEntry S tmpStr (tripleLine S (obs, i, v)) =
             ((Some obs, Some i, Some v), CHR '' '' # show_long i)"
    using parseEntry_entryText [OF rt] by (simp add: tripleLine_def)
  have c: "createBelief C obs (m, st) = (?a, ?m1, ?st1)"
    using createBelief_unseen [of m obs C st] fresh by (simp add: umap_at_def)
  have "nodes ?st1 ?a = Some ?node" by simp
  with sn have "setNode S i ?a ?st1 = ?st1\<lparr>nodes := (nodes ?st1)(?a \<mapsto> ?node\<lparr>bn_id := i\<rparr>)\<rparr>"
    unfolding setNodeAssignsId_def by blast
  then have s: "setNode S i ?a ?st1 = ?st2"
    by simp
  have u: "umap_modify obs (\<lambda>e. e\<lparr>visitCount := v\<rparr>) (childMap ?m1) = childMap ?m2"
    using umap_modify_last [OF fresh] by simp
  have run: "loadEntries S C (Suc n)
             (\<lparr>buf = tripleLine S (obs, i, v) @ CHR 0x0A # rest, failbit = False, eofbit = False\<rparr>,
              line, tmpStr, m, st) =
           loadEntries S C n
             (\<lparr>buf = rest, failbit = False, eofbit = False\<rparr>, tripleLine S (obs, i, v),
              CHR '' '' # show_long i, ?m2, ?st2)"
    using u by (simp add: g p c s)
  from wf have old: "list_all (\<lambda>entry. entryTriple ?st2 entry = entryTriple st entry) (childMap m)"
    unfolding loadedWell_def
    by (rule list.pred_mono_strong) (rule entryTriple_older)
  then have tr: "map (entryTriple ?st2) (childMap m) = map (entryTriple st) (childMap m)"
    by (simp add: list_all_iff)
  have w: "loadedWell ?m2 ?st2"
    using wf unfolding loadedWell_def
    by (auto simp: list_all_iff split: option.splits)
  have "map (entryTriple ?st2) (childMap ?m2) = map (entryTriple st) (childMap m) @ [(obs, i, v)]"
    by (simp add: tr) (simp add: entryTriple_def)
  with run w show ?thesis
    by (intro exI [of _ ?m2] exI [of _ ?st2]) simp
qed


lemma loadEntries_triples:
  assumes rt: "observationRoundTrip S" and sn: "setNodeAssignsId S"
  shows "loadedWell m st \<Longrightarrow> distinct (map fst ts) \<Longrightarrow>
         \<forall>t\<in>set ts. map_of (childMap m) (fst t) = None \<Longrightarrow>
         \<exists>line' tmp' m' st'.
           loadEntries S C (length ts)
             (\<lparr>buf = concat (map (\<lambda>t. tripleLine S t @ [CHR 0x0A]) ts) @ rest,
               failbit = False, eofbit = False\<rparr>, line, tmpStr, m, st) =
             Inr (\<lparr>buf = rest, failbit = False, eofbit = False\<rparr>, line', tmp', m', st')
           \<and> loadedWell m' st'
           \<and> totalVisitCount m' = totalVisitCount m
           \<and> map (entryTriple st') (childMap m') = map (entryTriple st) (childMap m) @ ts"
proof (induction ts arbitrary: line tmpStr m st)
  case Nil
  then show ?case by simp
next
  case (Cons t ts)
  obtain obs i v where t: "t = (obs, i, v)" by (cases t)
  from Cons.prems(3) t have fresh: "map_of (childMap m) obs = None" by simp
  let ?rest = "concat (map (\<lambda>t. tripleLine S t @ [CHR 0x0A]) ts) @ rest"
  from loadEntries_step [OF rt sn Cons.prems(1) fresh, of C "length ts" i v ?rest line tmpStr]
  obtain m1 st1 where
    run: "loadEntries S C (Suc (length ts))
             (\<lparr>buf = tripleLine S (obs, i, v) @ CHR 0x0A # ?rest, failbit = False, eofbit = False\<rparr>,
              line, tmpStr, m, st) =
           loadEntries S C (length ts)
             (\<lparr>buf = ?rest, failbit = False, eofbit = False\<rparr>, tripleLine S (obs, i, v),
              CHR '' '' # show_long i, m1, st1)"
    and w1: "loadedWell m1 st1"
    and tv: "totalVisitCount m1 = totalVisitCount m"
    and k1: "map fst (childMap m1) = map fst (childMap m) @ [obs]"
    and tr: "map (entryTriple st1) (childMap m1) = map (entryTriple st) (childMap m) @ [(obs, i, v)]"
    by blast
  from Cons.prems(2) have d: "distinct (map fst ts)" and ni: "obs \<notin> fst ` set ts"
    by (simp_all add: t)
  have f1: "\<forall>t\<in>set ts. map_of (childMap m1) (fst t) = None"
  proof
    fix u assume u: "u \<in> set ts"
    with Cons.prems(3) have "map_of (childMap m) (fst u) = None" by simp
    then have "fst u \<notin> set (map fst (childMap m))"
      by (simp add: map_of_eq_None_iff)
    moreover from u ni have "fst u \<noteq> obs" by auto
    ultimately have "fst u \<notin> set (map fst (childMap m1))" by (simp add: k1)
    then show "map_of (childMap m1) (fst u) = None"
      by (simp add: map_of_eq_None_iff)
  qed
  from Cons.IH [OF w1 d f1, of "tripleLine S (obs, i, v)" "CHR '' '' # show_long i"]
  obtain line' tmp' m' st' where
    fin: "loadEntries S C (length ts)
             (\<lparr>buf = ?rest, failbit = False, eofbit = False\<rparr>, tripleLine S (obs, i, v),
              CHR '' '' # show_long i, m1, st1) =
           Inr (\<lparr>buf = rest, failbit = False, eofbit = False\<rparr>, line', tmp', m', st')"
    and w': "loadedWell m' st'"
    and tv': "totalVisitCount m' = totalVisitCount m1"
    and tr': "map (entryTriple st') (childMap m') = map (entryTriple st1) (childMap m1) @ ts"
    by blast
  have "loadEntries S C (length (t # ts))
             (\<lparr>buf = concat (map (\<lambda>t. tripleLine S t @ [CHR 0x0A]) (t # ts)) @ rest,
               failbit = False, eofbit = False\<rparr>, line, tmpStr, m, st) =
        Inr (\<lparr>buf = rest, failbit = False, eofbit = False\<rparr>, line', tmp', m', st')"
    using run fin by (simp add: t)
  moreover have "map (entryTriple st') (childMap m') = map (entryTriple st) (childMap m) @ t # ts"
    by (simp add: tr' tr t)
  ultimately show ?case
    using w' tv' tv by (intro exI [of _ line'] exI [of _ tmp'] exI [of _ m'] exI [of _ st']) simp
qed

lemma map_of_entryTriple:
  "map_of (map (entryTriple st) es) obs =
     map_option (\<lambda>e. snd (entryTriple st (obs, e))) (map_of es obs)"
  by (induction es) (auto simp: entryTriple_def)

lemma getVisitCount_triples:
  "getVisitCount m obs =
     (case map_of (map (entryTriple st) (childMap m)) obs of
        None \<Rightarrow> Inl OutOfRange
      | Some iv \<Rightarrow> Inr (snd iv))"
  by (simp add: getVisitCount_def umap_at_def map_of_entryTriple entryTriple_def
      split: option.splits)

lemma childId_triples:
  assumes "allChildrenLive m st"
  shows "childId m st obs = map_option fst (map_of (map (entryTriple st) (childMap m)) obs)"
proof (cases "map_of (childMap m) obs")
  case None
  then show ?thesis
    by (simp add: childId_def getBelief_def umap_at_def map_of_entryTriple)
next
  case (Some e)
  then have "(obs, e) \<in> set (childMap m)" by (rule map_of_SomeD)
  with assms have "case childNode e of None \<Rightarrow> False | Some a \<Rightarrow> nodes st a \<noteq> None"
    by (auto simp: allChildrenLive_def list_all_iff)
  with Some show ?thesis
    by (auto simp: childId_def getBelief_def umap_at_def map_of_entryTriple entryTriple_def
        split: option.splits)
qed

lemma loadedWell_live: "loadedWell m st \<Longrightarrow> allChildrenLive m st"
  by (auto simp: loadedWell_def allChildrenLive_def list_all_iff split: option.splits)

lemma fst_entryTriple: "map fst (map (entryTriple st) es) = map fst es"
  by (simp add: entryTriple_def)

lemma distinct_keys_sort_key:
  "distinct (map fst xs) \<Longrightarrow> distinct (map fst (sort_key f xs))"
  by (simp add: distinct_map)


text \<open>The saved form: header, one line per entry in lexicographic order, closing brace.\<close>

definition savedText ::
  "('o, 'am, 'p) serializer \<Rightarrow> 'o DiscreteObservationMap \<Rightarrow> ('am, 'p) store \<Rightarrow> string" where
  "savedText S m st =
     headerText (of_nat (getNChildren m)) (getTotalVisitCount m) @ [CHR 0x0A]
       @ concat (sort (map (\<lambda>entry. tripleLine S (entryTriple st entry) @ [CHR 0x0A]) (childMap m)))
       @ ''}'' @ [CHR 0x0A]"

text \<open>
  Claim C5, as the code has it. For a mapping in which every entry has a live child node
  (and fewer than \<open>2^31\<close> entries), saving yields the header, the sorted entry lines and
  the closing brace, and loading that text yields a mapping with the same number of
  children, the same total visit count, the same visit count for every observation and the
  same child id for every observation.
\<close>

theorem save_load_round_trip:
  assumes rt: "observationRoundTrip S" and sn: "setNodeAssignsId S"
    and live: "allChildrenLive m st" and keys: "distinct (map fst (childMap m))"
    and small: "getNChildren m < 2 ^ 31"
  shows "saveObservationMapping S m st = Inr (savedText S m st)
     \<and> (\<exists>m' st' is'.
          loadObservationMapping S C (istringstream (savedText S m st)) st0 = Inr (m', st', is')
          \<and> getNChildren m' = getNChildren m
          \<and> getTotalVisitCount m' = getTotalVisitCount m
          \<and> (\<forall>obs. getVisitCount m' obs = getVisitCount m obs)
          \<and> (\<forall>obs. childId m' st' obs = childId m st obs))"
proof -
  let ?f = "\<lambda>t. tripleLine S t @ [CHR 0x0A]"
  let ?ts = "map (entryTriple st) (childMap m)"
  let ?ts' = "sort_key ?f ?ts"
  let ?n = "of_nat (getNChildren m) :: long"
  let ?h = "headerText ?n (getTotalVisitCount m)"
  let ?m0 = "(newDiscreteObservationMap :: 'a DiscreteObservationMap)
               \<lparr>totalVisitCount := getTotalVisitCount m\<rparr>"
  have lines: "entryLines S st (childMap m) =
                 Inr (map (\<lambda>entry. ?f (entryTriple st entry)) (childMap m))"
    using live unfolding allChildrenLive_def by (rule entryLines_live)
  have sv: "saveObservationMapping S m st = Inr (savedText S m st)"
    by (simp add: saveObservationMapping_def lines savedText_def)
  have "map (\<lambda>entry. ?f (entryTriple st entry)) (childMap m) = map ?f ?ts"
    by simp
  then have srt: "sort (map (\<lambda>entry. ?f (entryTriple st entry)) (childMap m)) = map ?f ?ts'"
    by (simp only: sort_map_key)
  have tx: "savedText S m st = ?h @ CHR 0x0A # (concat (map ?f ?ts') @ ''}\<newline>'')"
    unfolding savedText_def srt by simp
  have nlh: "CHR 0x0A \<notin> set ?h"
    by (simp add: headerText_def show_long_no_newline)
  have g: "getline (istringstream (savedText S m st)) =
             (Some ?h, \<lparr>buf = concat (map ?f ?ts') @ ''}\<newline>'', failbit = False, eofbit = False\<rparr>)"
    unfolding tx istringstream_def by (rule getline_line [OF nlh])
  have len: "length ?ts' = getNChildren m"
    by (simp add: getNChildren_def)
  have n: "sint ?n = int (getNChildren m)"
    by (rule sint_of_nat_small [OF small])
  have nn: "\<not> 2147483647 < sint ?n" "nat (sint ?n) = length ?ts'"
    using small by (simp_all add: n len del: length_sort)
  have w0: "loadedWell ?m0 st0"
    by (simp add: loadedWell_def newDiscreteObservationMap_def)
  have d: "distinct (map fst ?ts')"
    using keys by (intro distinct_keys_sort_key) (simp add: fst_entryTriple del: map_map)
  have f0: "\<forall>t\<in>set ?ts'. map_of (childMap ?m0) (fst t) = None"
    by (simp add: newDiscreteObservationMap_def)
  from loadEntries_triples [OF rt sn w0 d f0, of C "''}\<newline>''" ?h "''children;''"]
  obtain line' tmp' m' st' where
    run: "loadEntries S C (length ?ts')
             (\<lparr>buf = concat (map ?f ?ts') @ ''}\<newline>'', failbit = False, eofbit = False\<rparr>,
              ?h, ''children;'', ?m0, st0) =
           Inr (\<lparr>buf = ''}\<newline>'', failbit = False, eofbit = False\<rparr>, line', tmp', m', st')"
    and w': "loadedWell m' st'"
    and tv: "totalVisitCount m' = totalVisitCount ?m0"
    and tr: "map (entryTriple st') (childMap m') = map (entryTriple st0) (childMap ?m0) @ ?ts'"
    by blast
  have ld: "loadObservationMapping S C (istringstream (savedText S m st)) st0 =
              Inr (m', st', snd (getline \<lparr>buf = ''}\<newline>'', failbit = False, eofbit = False\<rparr>))"
    unfolding loadObservationMapping_def
    using run by (simp add: g parseTotals_headerText nn del: sort_key_simps)
  from tr have tr': "map (entryTriple st') (childMap m') = ?ts'"
    by (simp add: newDiscreteObservationMap_def)
  have c1: "getNChildren m' = getNChildren m"
    using arg_cong [OF tr', of length] by (simp add: getNChildren_def)
  have c2: "getTotalVisitCount m' = getTotalVisitCount m"
    using tv by (simp add: getTotalVisitCount_def)
  have d0: "distinct (map fst ?ts)"
    using keys by (simp add: fst_entryTriple del: map_map)
  have "set ?ts' = set ?ts" by simp
  with d d0 have mo: "map_of ?ts' = map_of ?ts"
    by (simp only: map_of_inject_set)
  have c3: "\<forall>obs. getVisitCount m' obs = getVisitCount m obs"
    by (simp only: getVisitCount_triples [of m' _ st'] getVisitCount_triples [of m _ st] tr' mo)
       simp
  have c4: "\<forall>obs. childId m' st' obs = childId m st obs"
    by (simp only: childId_triples [OF loadedWell_live [OF w']] childId_triples [OF live] tr' mo)
       simp
  from sv ld c1 c2 c3 c4 show ?thesis by blast
qed


text \<open>A concrete serializer for observations that are numbers, and a mapping to save.\<close>

definition longSerializer :: "(long, unit, unit) serializer" where
  "longSerializer =
     \<lparr>saveObservation = show_long,
      loadObservation = read_long,
      setNode = (\<lambda>i a st.
        st\<lparr>nodes := (nodes st)(a := map_option (\<lambda>node. node\<lparr>bn_id := i\<rparr>) (nodes st a))\<rparr>)\<rparr>"

definition demoStore2 :: "(unit, unit) store" where
  "demoStore2 =
     \<lparr>nodes = (\<lambda>a. if a = 0 then Some (demoChild 1)
                    else if a = 1 then Some ((demoChild 1)\<lparr>bn_id := 9\<rparr>) else None),
      nextAddr = 2, pool = ()\<rparr>"

definition demoLongMap :: "long DiscreteObservationMap" where
  "demoLongMap =
     \<lparr>childMap = [(3, \<lparr>childNode = Some 1, visitCount = - 1\<rparr>),
                  (20, \<lparr>childNode = Some 0, visitCount = 4\<rparr>)],
      totalVisitCount = 3\<rparr>"

lemma read_long_tab_show_long:
  assumes r: "stops_number r"
  shows "read_long \<lparr>buf = CHR 0x09 # show_long v @ r, failbit = False, eofbit = False\<rparr> =
           (Some v, \<lparr>buf = r, failbit = False, eofbit = (r = [])\<rparr>)"
proof -
  obtain c cs where c: "show_long v = c # cs" "\<not> isspace c"
    using show_long_starts by blast
  then have se: "sentry \<lparr>buf = CHR 0x09 # show_long v @ r, failbit = False, eofbit = False\<rparr> =
                   (True, \<lparr>buf = show_long v @ r, failbit = False, eofbit = False\<rparr>)"
    by (simp add: sentry_def isspace_def)
  show ?thesis
    using sint_long_bounds [of v]
    by (simp add: read_long_def se scan_long_show_long [OF r])
qed

lemma longSerializer_round_trip: "observationRoundTrip longSerializer"
proof -
  have "stops_number ('' -> NODE '' @ r)" for r
    by (simp add: stops_number_def isdigit_def digits_def)
  from read_long_tab_show_long [OF this]
  show ?thesis
    by (simp add: observationRoundTrip_def longSerializer_def show_long_no_newline)
qed

lemma longSerializer_setNode: "setNodeAssignsId longSerializer"
  by (simp add: setNodeAssignsId_def longSerializer_def)

lemma demo_saved:
  "savedText longSerializer demoLongMap demoStore2 =
     ''2 observation children; 3 visits {\<newline>'' @ CHR 0x09 # ''20 -> NODE 7; 4 visits\<newline>'' @
     CHR 0x09 # ''3 -> NODE 9; -1 visits\<newline>}\<newline>''"
  by (simp add: savedText_def headerText_def tripleLine_def entryTriple_def entryText_def
        longSerializer_def demoLongMap_def demoStore2_def demoChild_def getNChildren_def
        getTotalVisitCount_def show_long_def show_nat.simps digit_char_def digits_def
        less_char_def less_eq_char_def)


theorem save_load_round_trip_witness:
  "observationRoundTrip longSerializer \<and> setNodeAssignsId longSerializer
   \<and> allChildrenLive demoLongMap demoStore2
   \<and> distinct (map fst (childMap demoLongMap)) \<and> getNChildren demoLongMap < 2 ^ 31
   \<and> saveObservationMapping longSerializer demoLongMap demoStore2 =
       Inr (''2 observation children; 3 visits {\<newline>'' @ CHR 0x09 # ''20 -> NODE 7; 4 visits\<newline>'' @
            CHR 0x09 # ''3 -> NODE 9; -1 visits\<newline>}\<newline>'')
   \<and> (\<exists>m' st' is'.
        loadObservationMapping longSerializer demoCollaborators
          (istringstream (savedText longSerializer demoLongMap demoStore2)) (demoStore 1) =
          Inr (m', st', is')
        \<and> getNChildren m' = 2 \<and> getTotalVisitCount m' = 3
        \<and> getVisitCount m' 20 = Inr 4 \<and> childId m' st' 3 = Some 9)"
proof -
  have live: "allChildrenLive demoLongMap demoStore2"
    by (simp add: allChildrenLive_def demoLongMap_def demoStore2_def)
  have keys: "distinct (map fst (childMap demoLongMap))"
    by (simp add: demoLongMap_def)
  have small: "getNChildren demoLongMap < 2 ^ 31"
    by (simp add: getNChildren_def demoLongMap_def)
  note T = save_load_round_trip [OF longSerializer_round_trip longSerializer_setNode live keys
      small, of demoCollaborators "demoStore 1"]
  from T obtain m' st' is' where
    ld: "loadObservationMapping longSerializer demoCollaborators
          (istringstream (savedText longSerializer demoLongMap demoStore2)) (demoStore 1) =
          Inr (m', st', is')"
    and c1: "getNChildren m' = getNChildren demoLongMap"
    and c2: "getTotalVisitCount m' = getTotalVisitCount demoLongMap"
    and c3: "getVisitCount m' 20 = getVisitCount demoLongMap 20"
    and c4: "childId m' st' 3 = childId demoLongMap demoStore2 3"
    by blast
  have e1: "getNChildren demoLongMap = 2" "getTotalVisitCount demoLongMap = 3"
    "getVisitCount demoLongMap 20 = Inr 4" "childId demoLongMap demoStore2 3 = Some 9"
    by (simp_all add: getNChildren_def getTotalVisitCount_def getVisitCount_def childId_def
          getBelief_def umap_at_def demoLongMap_def demoStore2_def demoChild_def)
  from T have sv: "saveObservationMapping longSerializer demoLongMap demoStore2 =
       Inr (''2 observation children; 3 visits {\<newline>'' @ CHR 0x09 # ''20 -> NODE 7; 4 visits\<newline>'' @
            CHR 0x09 # ''3 -> NODE 9; -1 visits\<newline>}\<newline>'')"
    by (simp only: demo_saved)
  from ld c1 c2 c3 c4 e1 have
    "\<exists>m' st' is'.
        loadObservationMapping longSerializer demoCollaborators
          (istringstream (savedText longSerializer demoLongMap demoStore2)) (demoStore 1) =
          Inr (m', st', is')
        \<and> getNChildren m' = 2 \<and> getTotalVisitCount m' = 3
        \<and> getVisitCount m' 20 = Inr 4 \<and> childId m' st' 3 = Some 9"
    by auto
  with longSerializer_round_trip longSerializer_setNode live keys small sv
  show ?thesis by blast
qed

text \<open>
  The claim as stated fails for a mapping with an entry made by \<open>updateVisitCount\<close>
  alone: the entry has no child node, and saving dereferences its null pointer.
\<close>

theorem save_null_child_counterexample:
  "getNChildren (updateVisitCount (5::long) 3 newDiscreteObservationMap) = 1
   \<and> saveObservationMapping longSerializer
        (updateVisitCount (5::long) 3 newDiscreteObservationMap) demoStore2 = Inl NullPointer"
  by (simp add: saveObservationMapping_def entryLine_def updateVisitCount_def
        newDiscreteObservationMap_def defaultEntry_def getNChildren_def)

end
